theory Spec2Isabelle
  imports Main "HOL-Library.Word"
begin

section \<open>PIcoOS: the system core (src/core/system.c)\<close>

subsection \<open>Configuration constants and types (os_config.h, core/system.h)\<close>

datatype error_code_t =
    ERROR_NONE
  | ERROR_FS_INIT_FAILED
  | ERROR_FS_MOUNT_FAILED
  | ERROR_DISPLAY_INIT_FAILED
  | ERROR_AUDIO_INIT_FAILED
  | ERROR_OUT_OF_MEMORY
  | ERROR_HARDWARE_FAILURE

definition SYSTEM_TICK_RATE_HZ :: "32 word" where
  "SYSTEM_TICK_RATE_HZ = 1000"

definition ENABLE_CACHE_OPTIMIZATION :: int where
  "ENABLE_CACHE_OPTIMIZATION = 1"

definition ENABLE_INSTRUCTION_PREFETCH :: int where
  "ENABLE_INSTRUCTION_PREFETCH = 1"

definition OS_CONFIG_ENABLE_GUI :: int where
  "OS_CONFIG_ENABLE_GUI = 1"

record SystemConfig =
  cpuFrequency :: "32 word"
  criticalHeapThreshold :: "32 word"
  enablePerformanceLogging :: "8 word"
  enableErrorLed :: "8 word"

text \<open>
  The file-scope variables of system.c. \<open>TickType_t\<close> and \<open>size_t\<close> are 32 bits wide on
  the target, as are the \<open>uint32_t\<close> variables that receive them.
\<close>

record system_state =
  sysConfig :: SystemConfig
  currentError :: error_code_t
  systemUptime :: "32 word"
  cpuUtilization :: "8 word"
  freeHeapSize :: "32 word"
  lastPerformanceCheck :: "32 word"

definition PERFORMANCE_CHECK_INTERVAL :: "32 word" where
  "PERFORMANCE_CHECK_INTERVAL = 1000"

text \<open>The static initialisers: every variable starts at zero, the error at \<open>ERROR_NONE\<close>.\<close>

definition initial_state :: system_state where
  "initial_state =
     \<lparr>sysConfig = \<lparr>cpuFrequency = 0, criticalHeapThreshold = 0,
                    enablePerformanceLogging = 0, enableErrorLed = 0\<rparr>,
      currentError = ERROR_NONE,
      systemUptime = 0,
      cpuUtilization = 0,
      freeHeapSize = 0,
      lastPerformanceCheck = 0\<rparr>"

subsection \<open>What the scheduler and the heap report\<close>

text \<open>
  The fields of \<open>TaskStatus_t\<close> that system.c reads, and the answers of the FreeRTOS calls
  made during one \<open>system_update\<close>: the tick count is read twice, the heap once, and
  the task table on recomputation. \<open>status_array = None\<close> stands for \<open>pvPortMalloc\<close>
  returning \<open>NULL\<close>; otherwise it holds the entries that \<open>uxTaskGetSystemState\<close> filled in.
\<close>

record TaskStatus_t =
  pcTaskName :: string
  ulRunTimeCounter :: "32 word"

record rtos_env =
  tick_first :: "32 word"
  tick_second :: "32 word"
  free_heap :: "32 word"
  status_array :: "TaskStatus_t list option"
  total_run_time :: "32 word"

text \<open>Calls that leave the module: console output and the hardware hooks.\<close>

datatype effect =
    Printf_initialized
  | Printf_stats "32 word" "8 word" "32 word"
  | Printf_low_memory "32 word"
  | Printf_error error_code_t
  | Call_calculate_cpu_usage
  | Call_memory_saving_mode
  | Call_blink_error_led error_code_t
  | Call_enable_data_cache
  | Call_enable_instruction_cache
  | Call_enable_instruction_prefetch

subsection \<open>The functions of system.c\<close>

text \<open>
  \<open>initialize_clocks\<close> picks the frequency (125 MHz when the configuration says 0) and
  returns 1; the clock programming itself is commented out in the source.
\<close>

definition initialize_clocks :: "SystemConfig \<Rightarrow> int" where
  "initialize_clocks cfg =
     (let freq = cpuFrequency cfg;
          freq = (if freq = 0 then 125000000 else freq)
      in 1)"

text \<open>
  \<open>system_init\<close>: the result is the return value, the calls made and the new state.
\<close>

definition system_init :: "SystemConfig \<Rightarrow> system_state \<Rightarrow> int \<times> effect list \<times> system_state" where
  "system_init config s =
     (let s1 = s\<lparr>sysConfig := config\<rparr>
      in if initialize_clocks (sysConfig s1) = 0 then (- 1, [], s1)
         else (0,
               (if ENABLE_CACHE_OPTIMIZATION \<noteq> 0
                then [Call_enable_data_cache, Call_enable_instruction_cache] else []) @
               (if ENABLE_INSTRUCTION_PREFETCH \<noteq> 0
                then [Call_enable_instruction_prefetch] else []) @
               [Printf_initialized],
               s1))"

text \<open>
  The second loop of \<open>calculate_cpu_usage\<close>: the first entry named IDLE sets the result
  and leaves the loop. The arithmetic is that of C: \<open>idleTime * 100\<close> and the subtraction
  from 100 are 32-bit unsigned, and the assignment to \<open>uint8_t\<close> keeps the low 8 bits.
\<close>

fun idle_scan :: "TaskStatus_t list \<Rightarrow> 32 word \<Rightarrow> 8 word \<Rightarrow> 8 word" where
  "idle_scan [] ulTotalRunTime utilization = utilization"
| "idle_scan (t # ts) ulTotalRunTime utilization =
     (if pcTaskName t = ''IDLE''
      then (let idleTime = ulRunTimeCounter t
            in ucast (100 - (idleTime * 100) div ulTotalRunTime))
      else idle_scan ts ulTotalRunTime utilization)"

definition calculate_cpu_usage :: "TaskStatus_t list option \<Rightarrow> 32 word \<Rightarrow> 8 word" where
  "calculate_cpu_usage pxTaskStatusArray ulTotalRunTime =
     (let utilization = 0
      in case pxTaskStatusArray of
           None \<Rightarrow> utilization
         | Some ts \<Rightarrow>
             (let totalExecutionTime = sum_list (map ulRunTimeCounter ts)
              in if ulTotalRunTime > 0 then idle_scan ts ulTotalRunTime utilization
                 else utilization))"

definition system_update :: "rtos_env \<Rightarrow> system_state \<Rightarrow> effect list \<times> system_state" where
  "system_update env s =
     (let s1 = s\<lparr>systemUptime := tick_first env div (SYSTEM_TICK_RATE_HZ div 1000)\<rparr>;
          s2 = s1\<lparr>freeHeapSize := free_heap env\<rparr>;
          currentTime = tick_second env div (SYSTEM_TICK_RATE_HZ div 1000)
      in if currentTime - lastPerformanceCheck s2 \<ge> PERFORMANCE_CHECK_INTERVAL
         then
           (let s3 = s2\<lparr>cpuUtilization :=
                          calculate_cpu_usage (status_array env) (total_run_time env)\<rparr>;
                s4 = s3\<lparr>lastPerformanceCheck := currentTime\<rparr>
            in (Call_calculate_cpu_usage #
                (if enablePerformanceLogging (sysConfig s4) \<noteq> 0
                 then [Printf_stats (systemUptime s4) (cpuUtilization s4) (freeHeapSize s4)]
                 else []) @
                (if freeHeapSize s4 < criticalHeapThreshold (sysConfig s4)
                 then [Printf_low_memory (freeHeapSize s4), Call_memory_saving_mode]
                 else []),
                s4))
         else ([], s2))"

definition system_set_error :: "error_code_t \<Rightarrow> system_state \<Rightarrow> effect list \<times> system_state" where
  "system_set_error error s =
     (let s1 = s\<lparr>currentError := error\<rparr>
      in (Printf_error error #
          (if enableErrorLed (sysConfig s1) \<noteq> 0 then [Call_blink_error_led error] else []),
          s1))"

definition system_get_error :: "system_state \<Rightarrow> error_code_t" where
  "system_get_error s = currentError s"

definition system_get_uptime :: "system_state \<Rightarrow> 32 word" where
  "system_get_uptime s = systemUptime s"

definition system_get_cpu_usage :: "system_state \<Rightarrow> 8 word" where
  "system_get_cpu_usage s = cpuUtilization s"

definition system_get_free_heap :: "system_state \<Rightarrow> 32 word" where
  "system_get_free_heap s = freeHeapSize s"

subsection \<open>Sequences of calls into the module\<close>

text \<open>
  The module's three entry points that write state, and a run of them in call order,
  whoever the callers are.
\<close>

datatype api_call =
    Init SystemConfig
  | Update rtos_env
  | SetError error_code_t

fun api_step :: "api_call \<Rightarrow> system_state \<Rightarrow> effect list \<times> system_state" where
  "api_step (Init config) s = snd (system_init config s)"
| "api_step (Update env) s = system_update env s"
| "api_step (SetError error) s = system_set_error error s"

fun api_run :: "api_call list \<Rightarrow> system_state \<Rightarrow> effect list \<times> system_state" where
  "api_run [] s = ([], s)"
| "api_run (c # cs) s =
     (let (es, s1) = api_step c s;
          (es', s2) = api_run cs s1
      in (es @ es', s2))"

text \<open>The codes reported in a run, in call order.\<close>

fun reported :: "api_call list \<Rightarrow> error_code_t list" where
  "reported [] = []"
| "reported (SetError error # cs) = error # reported cs"
| "reported (c # cs) = reported cs"

text \<open>
  The body of the Supervisor's loop, \<open>system_update\<close> then a 10 ms delay, repeated once
  for each sample of the environment.
\<close>

fun supervisor_loop :: "rtos_env list \<Rightarrow> system_state \<Rightarrow> effect list \<times> system_state" where
  "supervisor_loop [] s = ([], s)"
| "supervisor_loop (env # envs) s =
     (let (es, s1) = system_update env s;
          (es', s2) = supervisor_loop envs s1
      in (es @ es', s2))"

section \<open>PIcoOS: the tasks (src/main.c)\<close>

subsection \<open>Status codes of the drivers (drivers/sd_card.h, fs/fs_manager.h, drivers/display.h, drivers/audio.h, drivers/gpio.h)\<close>

datatype sd_card_status_t =
    SD_CARD_OK
  | SD_CARD_ERROR_INIT
  | SD_CARD_ERROR_READ
  | SD_CARD_ERROR_WRITE
  | SD_CARD_ERROR_TIMEOUT
  | SD_CARD_ERROR_INVALID_PARAM
  | SD_CARD_ERROR_NO_CARD

datatype fs_status_t =
    FS_OK
  | FS_ERROR_INIT
  | FS_ERROR_MOUNT
  | FS_ERROR_UNMOUNT
  | FS_ERROR_OPEN
  | FS_ERROR_CLOSE
  | FS_ERROR_READ
  | FS_ERROR_WRITE
  | FS_ERROR_SEEK
  | FS_ERROR_TELL
  | FS_ERROR_TRUNCATE
  | FS_ERROR_MKDIR
  | FS_ERROR_REMOVE
  | FS_ERROR_RENAME
  | FS_ERROR_STAT
  | FS_ERROR_FULL
  | FS_ERROR_NOT_FOUND
  | FS_ERROR_INVALID_NAME
  | FS_ERROR_DENIED
  | FS_ERROR_EXIST
  | FS_ERROR_NOT_READY
  | FS_ERROR_INVALID_PARAM
  | FS_ERROR_NO_PATH
  | FS_ERROR_TIMEOUT

datatype display_status_t =
    DISPLAY_OK
  | DISPLAY_ERROR_INIT
  | DISPLAY_ERROR_PARAMS
  | DISPLAY_ERROR_COMM
  | DISPLAY_ERROR_TIMEOUT
  | DISPLAY_ERROR_NO_DEVICE

datatype audio_status_t =
    AUDIO_OK
  | AUDIO_ERROR_INIT
  | AUDIO_ERROR_BUSY
  | AUDIO_ERROR_PARAM
  | AUDIO_ERROR_MEMORY
  | AUDIO_ERROR_FORMAT
  | AUDIO_ERROR_IO
  | AUDIO_ERROR_TIMEOUT

datatype button_event_t =
    BUTTON_PRESSED
  | BUTTON_RELEASED
  | BUTTON_LONG_PRESS

subsection \<open>The button callback\<close>

text \<open>The three handlers of the GUI manager that the callback can invoke.\<close>

datatype gui_call =
    Gui_handle_button_press "8 word"
  | Gui_handle_button_release "8 word"
  | Gui_handle_button_long_press "8 word"

definition buttonCallback :: "8 word \<Rightarrow> button_event_t \<Rightarrow> gui_call list" where
  "buttonCallback button_id event =
     (if event = BUTTON_PRESSED then [Gui_handle_button_press button_id]
      else if event = BUTTON_RELEASED then [Gui_handle_button_release button_id]
      else if event = BUTTON_LONG_PRESS then [Gui_handle_button_long_press button_id]
      else [])"

text \<open>
  The driver invokes the registered callback once for each event, in the order of the
  events; the handler calls of a sequence of events are those of each event in turn.
\<close>

fun button_events :: "(8 word \<times> button_event_t) list \<Rightarrow> gui_call list" where
  "button_events [] = []"
| "button_events ((button_id, event) # rest) = buttonCallback button_id event @ button_events rest"

text \<open>The handler call that belongs to an event kind.\<close>

fun handler_for :: "8 word \<times> button_event_t \<Rightarrow> gui_call" where
  "handler_for (button_id, BUTTON_PRESSED) = Gui_handle_button_press button_id"
| "handler_for (button_id, BUTTON_RELEASED) = Gui_handle_button_release button_id"
| "handler_for (button_id, BUTTON_LONG_PRESS) = Gui_handle_button_long_press button_id"

subsection \<open>Tasks, locks and the scheduler's state\<close>

datatype task_id = SYS | FS | AUDIO | GUI

datatype mutex_id = sdCardMutex | displayMutex | audioMutex

text \<open>
  The places in a task body where the task can be: at its bring-up call, at the mount
  (Storage only), at the one-time set-up (Presentation only), at the four statements of
  its loop, or gone (deleted, or never created).
\<close>

datatype loc = L_init | L_mount | L_setup | L_take | L_tick | L_give | L_delay | L_gone

text \<open>The calls a task makes, as they appear in the trace of an execution.\<close>

datatype call =
    Sys effect
  | Call_system_update
  | Call_fs_update
  | Call_audio_update
  | Call_gui_init
  | Call_gui_update
  | Take mutex_id
  | Give mutex_id
  | Delay nat
  | Delete

record kernel_state =
  pcs :: "task_id \<Rightarrow> loc"
  holder :: "mutex_id \<Rightarrow> task_id option"
  sys :: system_state
  trace :: "(task_id \<times> call) list"

text \<open>
  What the world answers to the step a task takes: the status a bring-up call returns,
  the contents of the Supervisor's uninitialised local \<open>config\<close>, and the scheduler's
  figures for \<open>system_update\<close>.
\<close>

record step_input =
  sd_card_init_result :: sd_card_status_t
  fs_init_result :: fs_status_t
  display_init_result :: display_status_t
  audio_init_result :: audio_status_t
  stack_config :: SystemConfig
  rtos :: rtos_env

subsection \<open>The FreeRTOS calls the tasks use\<close>

definition emit :: "task_id \<Rightarrow> call list \<Rightarrow> kernel_state \<Rightarrow> kernel_state" where
  "emit t cs s = s\<lparr>trace := trace s @ map (Pair t) cs\<rparr>"

definition goto :: "task_id \<Rightarrow> loc \<Rightarrow> kernel_state \<Rightarrow> kernel_state" where
  "goto t l s = s\<lparr>pcs := (pcs s)(t := l)\<rparr>"

text \<open>
  \<open>xSemaphoreTake m portMAX_DELAY\<close> returns once the mutex is free and the caller owns it;
  until then the caller is blocked (\<open>None\<close>: no step). \<open>xSemaphoreGive\<close> frees it.
  \<open>vTaskDelete NULL\<close> removes the calling task. \<open>vTaskDelay\<close> changes nothing but time.
\<close>

definition xSemaphoreTake :: "task_id \<Rightarrow> mutex_id \<Rightarrow> kernel_state \<Rightarrow> kernel_state option" where
  "xSemaphoreTake t m s =
     (if holder s m = None then Some (emit t [Take m] (s\<lparr>holder := (holder s)(m \<mapsto> t)\<rparr>))
      else None)"

definition xSemaphoreGive :: "task_id \<Rightarrow> mutex_id \<Rightarrow> kernel_state \<Rightarrow> kernel_state" where
  "xSemaphoreGive t m s = emit t [Give m] (s\<lparr>holder := (holder s)(m := None)\<rparr>)"

definition vTaskDelete :: "task_id \<Rightarrow> kernel_state \<Rightarrow> kernel_state" where
  "vTaskDelete t s = goto t L_gone (emit t [Delete] s)"

definition vTaskDelay :: "task_id \<Rightarrow> nat \<Rightarrow> kernel_state \<Rightarrow> kernel_state" where
  "vTaskDelay t ms s = emit t [Delay ms] s"

text \<open>A call into system.c made by task \<open>t\<close>.\<close>

definition in_system ::
  "task_id \<Rightarrow> (system_state \<Rightarrow> effect list \<times> system_state) \<Rightarrow> kernel_state \<Rightarrow> kernel_state" where
  "in_system t f s = emit t (map Sys (fst (f (sys s)))) (s\<lparr>sys := snd (f (sys s))\<rparr>)"

subsection \<open>The four task bodies, one statement per step\<close>

text \<open>
  A step runs the statement at the task's place and moves to the next. A failed
  bring-up test runs together with its branch, which ends the task. \<open>systemTask\<close> calls
  \<open>system_init\<close> and drops what it returns.
\<close>

definition systemTask :: "step_input \<Rightarrow> kernel_state \<Rightarrow> kernel_state option" where
  "systemTask i s =
     (case pcs s SYS of
        L_init \<Rightarrow>
          Some (goto SYS L_tick
            (in_system SYS (\<lambda>y. snd (system_init (stack_config i) y)) s))
      | L_tick \<Rightarrow>
          Some (goto SYS L_delay
            (in_system SYS (system_update (rtos i)) (emit SYS [Call_system_update] s)))
      | L_delay \<Rightarrow> Some (goto SYS L_tick (vTaskDelay SYS 10 s))
      | _ \<Rightarrow> None)"

definition guiTask :: "step_input \<Rightarrow> kernel_state \<Rightarrow> kernel_state option" where
  "guiTask i s =
     (case pcs s GUI of
        L_init \<Rightarrow>
          if display_init_result i \<noteq> DISPLAY_OK then Some (vTaskDelete GUI s)
          else Some (goto GUI L_setup s)
      | L_setup \<Rightarrow> Some (goto GUI L_take (emit GUI [Call_gui_init] s))
      | L_take \<Rightarrow> map_option (goto GUI L_tick) (xSemaphoreTake GUI displayMutex s)
      | L_tick \<Rightarrow> Some (goto GUI L_give (emit GUI [Call_gui_update] s))
      | L_give \<Rightarrow> Some (goto GUI L_delay (xSemaphoreGive GUI displayMutex s))
      | L_delay \<Rightarrow> Some (goto GUI L_take (vTaskDelay GUI 16 s))
      | _ \<Rightarrow> None)"

definition fsTask :: "step_input \<Rightarrow> kernel_state \<Rightarrow> kernel_state option" where
  "fsTask i s =
     (case pcs s FS of
        L_init \<Rightarrow>
          if sd_card_init_result i \<noteq> SD_CARD_OK
          then Some (vTaskDelete FS (in_system FS (system_set_error ERROR_FS_INIT_FAILED) s))
          else Some (goto FS L_mount s)
      | L_mount \<Rightarrow>
          if fs_init_result i \<noteq> FS_OK
          then Some (vTaskDelete FS (in_system FS (system_set_error ERROR_FS_MOUNT_FAILED) s))
          else Some (goto FS L_take s)
      | L_take \<Rightarrow> map_option (goto FS L_tick) (xSemaphoreTake FS sdCardMutex s)
      | L_tick \<Rightarrow> Some (goto FS L_give (emit FS [Call_fs_update] s))
      | L_give \<Rightarrow> Some (goto FS L_delay (xSemaphoreGive FS sdCardMutex s))
      | L_delay \<Rightarrow> Some (goto FS L_take (vTaskDelay FS 50 s))
      | _ \<Rightarrow> None)"

definition audioTask :: "step_input \<Rightarrow> kernel_state \<Rightarrow> kernel_state option" where
  "audioTask i s =
     (case pcs s AUDIO of
        L_init \<Rightarrow>
          if audio_init_result i \<noteq> AUDIO_OK then Some (vTaskDelete AUDIO s)
          else Some (goto AUDIO L_take s)
      | L_take \<Rightarrow> map_option (goto AUDIO L_tick) (xSemaphoreTake AUDIO audioMutex s)
      | L_tick \<Rightarrow> Some (goto AUDIO L_give (emit AUDIO [Call_audio_update] s))
      | L_give \<Rightarrow> Some (goto AUDIO L_delay (xSemaphoreGive AUDIO audioMutex s))
      | L_delay \<Rightarrow> Some (goto AUDIO L_take (vTaskDelay AUDIO 5 s))
      | _ \<Rightarrow> None)"

fun task_step :: "task_id \<Rightarrow> step_input \<Rightarrow> kernel_state \<Rightarrow> kernel_state option" where
  "task_step SYS i s = systemTask i s"
| "task_step FS i s = fsTask i s"
| "task_step AUDIO i s = audioTask i s"
| "task_step GUI i s = guiTask i s"

text \<open>
  The state \<open>main\<close> hands to the scheduler: three free mutexes, the Supervisor, Storage
  and Audio tasks at their first statement, and the Presentation task too when the GUI is
  enabled.
\<close>

definition main_boot :: kernel_state where
  "main_boot =
     \<lparr>pcs = (\<lambda>t. L_gone)
              (SYS := L_init, FS := L_init, AUDIO := L_init,
               GUI := (if OS_CONFIG_ENABLE_GUI \<noteq> 0 then L_init else L_gone)),
      holder = (\<lambda>m. None),
      sys = initial_state,
      trace = []\<rparr>"

text \<open>
  An execution: the scheduler picks a task for each step, in any order; a pick of a task
  that is blocked or gone changes nothing.
\<close>

fun exec :: "(task_id \<times> step_input) list \<Rightarrow> kernel_state \<Rightarrow> kernel_state" where
  "exec [] s = s"
| "exec ((t, i) # rest) s =
     (case task_step t i s of None \<Rightarrow> exec rest s | Some s' \<Rightarrow> exec rest s')"

text \<open>The locks a task holds, and the one lock each task body names.\<close>

definition held_by :: "kernel_state \<Rightarrow> task_id \<Rightarrow> mutex_id list" where
  "held_by s t = filter (\<lambda>m. holder s m = Some t) [sdCardMutex, displayMutex, audioMutex]"

fun own_mutex :: "task_id \<Rightarrow> mutex_id list" where
  "own_mutex SYS = []"
| "own_mutex FS = [sdCardMutex]"
| "own_mutex AUDIO = [audioMutex]"
| "own_mutex GUI = [displayMutex]"

subsection \<open>The calls of a task, and the prescribed service iteration\<close>

text \<open>The calls of one task in a trace, in order, and the calls a step added to the trace.\<close>

definition calls_of :: "task_id \<Rightarrow> (task_id \<times> call) list \<Rightarrow> call list" where
  "calls_of t tr = map snd (filter (\<lambda>x. fst x = t) tr)"

definition new_calls :: "kernel_state \<Rightarrow> kernel_state \<Rightarrow> (task_id \<times> call) list" where
  "new_calls s s' = drop (length (trace s)) (trace s')"

text \<open>
  What the specification prescribes for a task whose bring-up succeeds. One service
  iteration is: acquire the task's lock, one service tick, release the lock, sleep for
  the cadence. Before the loop come the bring-up steps, of which only the Presentation
  task's one-time set-up makes a call. \<open>healthy_calls t n\<close> are the calls of the task's
  first \<open>n\<close> steps: the bring-up, then the iteration over and over.
\<close>

fun service_cycle :: "task_id \<Rightarrow> call list" where
  "service_cycle SYS = []"
| "service_cycle FS = [Take sdCardMutex, Call_fs_update, Give sdCardMutex, Delay 50]"
| "service_cycle AUDIO = [Take audioMutex, Call_audio_update, Give audioMutex, Delay 5]"
| "service_cycle GUI = [Take displayMutex, Call_gui_update, Give displayMutex, Delay 16]"

fun setup_calls :: "task_id \<Rightarrow> call list list" where
  "setup_calls SYS = []"
| "setup_calls FS = [[], []]"
| "setup_calls AUDIO = [[]]"
| "setup_calls GUI = [[], [Call_gui_init]]"

fun bringup_ok :: "task_id \<Rightarrow> step_input \<Rightarrow> bool" where
  "bringup_ok SYS i = True"
| "bringup_ok FS i = (sd_card_init_result i = SD_CARD_OK \<and> fs_init_result i = FS_OK)"
| "bringup_ok AUDIO i = (audio_init_result i = AUDIO_OK)"
| "bringup_ok GUI i = (display_init_result i = DISPLAY_OK)"

fun healthy_calls :: "task_id \<Rightarrow> nat \<Rightarrow> call list" where
  "healthy_calls t 0 = []"
| "healthy_calls t (Suc n) =
     healthy_calls t n @
     (if n < length (setup_calls t) then setup_calls t ! n
      else [service_cycle t ! ((n - length (setup_calls t)) mod 4)])"

text \<open>The place at which such a task stands after \<open>n\<close> steps.\<close>

fun setup_places :: "task_id \<Rightarrow> loc list" where
  "setup_places SYS = []"
| "setup_places FS = [L_init, L_mount]"
| "setup_places AUDIO = [L_init]"
| "setup_places GUI = [L_init, L_setup]"

definition place :: "task_id \<Rightarrow> nat \<Rightarrow> loc" where
  "place t n =
     (if n < length (setup_places t) then setup_places t ! n
      else [L_take, L_tick, L_give, L_delay] ! ((n - length (setup_places t)) mod 4))"

text \<open>
  The lock discipline of the task bodies: a mutex is held exactly while its one task is
  between its take and its give, and every task stays on the statements of its own body.
\<close>

definition lock_discipline :: "kernel_state \<Rightarrow> bool" where
  "lock_discipline s \<longleftrightarrow>
     holder s sdCardMutex = (if pcs s FS = L_tick \<or> pcs s FS = L_give then Some FS else None)
   \<and> holder s displayMutex = (if pcs s GUI = L_tick \<or> pcs s GUI = L_give then Some GUI else None)
   \<and> holder s audioMutex = (if pcs s AUDIO = L_tick \<or> pcs s AUDIO = L_give then Some AUDIO else None)
   \<and> (pcs s SYS = L_init \<or> pcs s SYS = L_tick \<or> pcs s SYS = L_delay)
   \<and> pcs s FS \<noteq> L_setup
   \<and> pcs s AUDIO \<noteq> L_mount \<and> pcs s AUDIO \<noteq> L_setup
   \<and> pcs s GUI \<noteq> L_mount"

section \<open>Example inputs\<close>

text \<open>
  A sample of the environment at tick \<open>t\<close> with \<open>h\<close> bytes of free heap, and a
  configuration with a low-memory threshold of 8 KiB.
\<close>

definition sample :: "32 word \<Rightarrow> 32 word \<Rightarrow> rtos_env" where
  "sample t h = \<lparr>tick_first = t, tick_second = t, free_heap = h,
                 status_array = None, total_run_time = 0\<rparr>"

definition low_memory_config :: SystemConfig where
  "low_memory_config = \<lparr>cpuFrequency = 0, criticalHeapThreshold = 8192,
                         enablePerformanceLogging = 0, enableErrorLed = 1\<rparr>"

text \<open>
  Answers of the world to a step: all peripherals healthy, no card in the slot, a card
  whose volume does not mount, and neither display nor audio present.
\<close>

definition healthy :: step_input where
  "healthy = \<lparr>sd_card_init_result = SD_CARD_OK, fs_init_result = FS_OK,
               display_init_result = DISPLAY_OK, audio_init_result = AUDIO_OK,
               stack_config = low_memory_config,
               rtos = sample 1000 4096\<rparr>"

definition no_card :: step_input where
  "no_card = healthy\<lparr>sd_card_init_result := SD_CARD_ERROR_NO_CARD\<rparr>"

definition bad_volume :: step_input where
  "bad_volume = healthy\<lparr>fs_init_result := FS_ERROR_MOUNT\<rparr>"

definition no_peripherals :: step_input where
  "no_peripherals = healthy\<lparr>display_init_result := DISPLAY_ERROR_NO_DEVICE,
                             audio_init_result := AUDIO_ERROR_INIT\<rparr>"

section \<open>Theorems about system.c\<close>

subsection \<open>The fault channel\<close>

lemma system_update_currentError:
  "currentError (snd (system_update env s)) = currentError s"
  by (simp add: system_update_def Let_def)

lemma system_init_currentError:
  "currentError (snd (snd (system_init config s))) = currentError s"
  by (simp add: system_init_def Let_def)

lemma system_set_error_currentError:
  "currentError (snd (system_set_error error s)) = error"
  by (simp add: system_set_error_def Let_def)

lemma api_run_currentError:
  "currentError (snd (api_run cs s)) =
     (if reported cs = [] then currentError s else last (reported cs))"
proof (induction cs arbitrary: s)
  case Nil
  show ?case by simp
next
  case (Cons c cs)
  show ?case
  proof (cases c)
    case (Init config)
    then show ?thesis
      using Cons.IH [of "snd (snd (system_init config s))"]
      by (simp add: split_beta system_init_currentError)
  next
    case (Update env)
    then show ?thesis
      using Cons.IH [of "snd (system_update env s)"]
      by (simp add: split_beta system_update_currentError)
  next
    case (SetError error)
    then show ?thesis
      using Cons.IH [of "snd (system_set_error error s)"]
      by (simp add: split_beta system_set_error_currentError)
  qed
qed

text \<open>
  C8. The fault channel is last-write-wins state. \<open>system_set_error code\<close> stores the
  code (and drives the indicator exactly when the configuration enables the error LED);
  after any run of calls into the module from the initial state, \<open>system_get_error\<close>
  is the code of the most recent \<open>system_set_error\<close>, or \<open>ERROR_NONE\<close> when there was
  none; \<open>system_init\<close> and \<open>system_update\<close> never change it.
\<close>

theorem fault_channel_last_write_wins:
  "system_get_error (snd (system_set_error code s)) = code
   \<and> (Call_blink_error_led code \<in> set (fst (system_set_error code s))
        = (enableErrorLed (sysConfig s) \<noteq> 0))
   \<and> system_get_error (snd (api_run cs initial_state)) =
        (if reported cs = [] then ERROR_NONE else last (reported cs))
   \<and> system_get_error (snd (system_update env s)) = system_get_error s
   \<and> system_get_error (snd (snd (system_init config s))) = system_get_error s"
  by (simp add: system_get_error_def api_run_currentError system_update_currentError
      system_init_currentError system_set_error_currentError)
    (simp add: system_set_error_def initial_state_def)

subsection \<open>One call of \<open>system_update\<close>\<close>

lemma tick_unit: "SYSTEM_TICK_RATE_HZ div 1000 = 1"
  by (simp add: SYSTEM_TICK_RATE_HZ_def)

lemma window_gate:
  fixes t l :: "32 word"
  assumes "unat l \<le> unat t"
  shows "(PERFORMANCE_CHECK_INTERVAL \<le> t - l) = (1000 \<le> unat t - unat l)"
proof -
  from assms have "l \<le> t" by (simp add: word_le_nat_alt)
  then have "unat (t - l) = unat t - unat l" by (rule unat_sub)
  then show ?thesis
    by (simp add: PERFORMANCE_CHECK_INTERVAL_def word_le_nat_alt)
qed

lemma system_update_closed:
  "\<not> PERFORMANCE_CHECK_INTERVAL \<le> tick_second env - lastPerformanceCheck s \<Longrightarrow>
   system_update env s = ([], s\<lparr>systemUptime := tick_first env, freeHeapSize := free_heap env\<rparr>)"
  by (simp add: system_update_def Let_def tick_unit)

lemma system_update_open:
  "PERFORMANCE_CHECK_INTERVAL \<le> tick_second env - lastPerformanceCheck s \<Longrightarrow>
   system_update env s =
     (Call_calculate_cpu_usage #
      (if enablePerformanceLogging (sysConfig s) \<noteq> 0
       then [Printf_stats (tick_first env)
               (calculate_cpu_usage (status_array env) (total_run_time env)) (free_heap env)]
       else []) @
      (if free_heap env < criticalHeapThreshold (sysConfig s)
       then [Printf_low_memory (free_heap env), Call_memory_saving_mode] else []),
      s\<lparr>systemUptime := tick_first env, freeHeapSize := free_heap env,
        cpuUtilization := calculate_cpu_usage (status_array env) (total_run_time env),
        lastPerformanceCheck := tick_second env\<rparr>)"
  by (simp add: system_update_def Let_def tick_unit)

lemma supervisor_loop_quiet:
  "\<forall>env\<in>set envs. unat (lastPerformanceCheck s) \<le> unat (tick_second env)
        \<and> unat (tick_second env) < unat (lastPerformanceCheck s) + 1000
   \<Longrightarrow> fst (supervisor_loop envs s) = []
       \<and> lastPerformanceCheck (snd (supervisor_loop envs s)) = lastPerformanceCheck s
       \<and> cpuUtilization (snd (supervisor_loop envs s)) = cpuUtilization s"
proof (induction envs arbitrary: s)
  case Nil
  show ?case by simp
next
  case (Cons env envs)
  let ?s1 = "s\<lparr>systemUptime := tick_first env, freeHeapSize := free_heap env\<rparr>"
  from Cons.prems have "\<not> PERFORMANCE_CHECK_INTERVAL \<le> tick_second env - lastPerformanceCheck s"
    by (auto simp add: window_gate)
  then have upd: "system_update env s = ([], ?s1)"
    by (rule system_update_closed)
  from Cons.prems have "\<forall>e\<in>set envs. unat (lastPerformanceCheck ?s1) \<le> unat (tick_second e)
        \<and> unat (tick_second e) < unat (lastPerformanceCheck ?s1) + 1000"
    by simp
  from Cons.IH [OF this] upd show ?case
    by (simp add: split_beta)
qed

lemma count_open:
  "PERFORMANCE_CHECK_INTERVAL \<le> tick_second env - lastPerformanceCheck s \<Longrightarrow>
   count_list (fst (system_update env s)) Call_calculate_cpu_usage = 1"
  by (simp add: system_update_open)

lemma supervisor_loop_window:
  assumes "sorted (map (unat \<circ> tick_second) envs)"
      and "\<forall>env\<in>set envs. unat (lastPerformanceCheck s) \<le> unat (tick_second env)"
      and "\<forall>env\<in>set envs. \<forall>env'\<in>set envs. unat (tick_second env') < unat (tick_second env) + 1000"
  shows "count_list (fst (supervisor_loop envs s)) Call_calculate_cpu_usage \<le> 1"
  using assms
proof (induction envs arbitrary: s)
  case Nil
  show ?case by simp
next
  case (Cons env envs)
  show ?case
  proof (cases "PERFORMANCE_CHECK_INTERVAL \<le> tick_second env - lastPerformanceCheck s")
    case False
    let ?s1 = "s\<lparr>systemUptime := tick_first env, freeHeapSize := free_heap env\<rparr>"
    from False have upd: "system_update env s = ([], ?s1)"
      by (rule system_update_closed)
    have "count_list (fst (supervisor_loop envs ?s1)) Call_calculate_cpu_usage \<le> 1"
      using Cons.prems by (intro Cons.IH) auto
    with upd show ?thesis by (simp add: split_beta)
  next
    case True
    let ?s1 = "snd (system_update env s)"
    from True have l: "lastPerformanceCheck ?s1 = tick_second env"
      by (simp add: system_update_open)
    from Cons.prems have "\<forall>e\<in>set envs. unat (lastPerformanceCheck ?s1) \<le> unat (tick_second e)
        \<and> unat (tick_second e) < unat (lastPerformanceCheck ?s1) + 1000"
      by (simp add: l)
    from supervisor_loop_quiet [OF this] count_open [OF True] show ?thesis
      by (simp add: split_beta)
  qed
qed

lemma system_update_sysConfig: "sysConfig (snd (system_update env s)) = sysConfig s"
  by (simp add: system_update_def Let_def)

lemma system_update_hook:
  "count_list (fst (system_update env s)) Call_memory_saving_mode =
     (if PERFORMANCE_CHECK_INTERVAL \<le> tick_second env - lastPerformanceCheck s
         \<and> free_heap env < criticalHeapThreshold (sysConfig s) then 1 else 0)"
  by (simp add: system_update_def Let_def tick_unit)

lemma system_update_recompute:
  "count_list (fst (system_update env s)) Call_calculate_cpu_usage =
     (if PERFORMANCE_CHECK_INTERVAL \<le> tick_second env - lastPerformanceCheck s then 1 else 0)"
  by (simp add: system_update_def Let_def tick_unit)

lemma supervisor_loop_hooks:
  "\<forall>env\<in>set envs. free_heap env < criticalHeapThreshold (sysConfig s) \<Longrightarrow>
   count_list (fst (supervisor_loop envs s)) Call_memory_saving_mode =
   count_list (fst (supervisor_loop envs s)) Call_calculate_cpu_usage"
proof (induction envs arbitrary: s)
  case Nil
  show ?case by simp
next
  case (Cons env envs)
  have "\<forall>e\<in>set envs. free_heap e < criticalHeapThreshold (sysConfig (snd (system_update env s)))"
    using Cons.prems by (simp add: system_update_sysConfig)
  from Cons.IH [OF this] Cons.prems show ?case
    by (simp add: split_beta system_update_hook system_update_recompute)
qed

lemma api_run_early:
  "\<forall>c\<in>set cs. \<forall>env. c = Update env \<longrightarrow> tick_second env < 1000 \<Longrightarrow>
   cpuUtilization s = 0 \<Longrightarrow> lastPerformanceCheck s = 0 \<Longrightarrow>
   cpuUtilization (snd (api_run cs s)) = 0 \<and> lastPerformanceCheck (snd (api_run cs s)) = 0"
proof (induction cs arbitrary: s)
  case Nil
  then show ?case by simp
next
  case (Cons c cs)
  have step: "cpuUtilization (snd (api_step c s)) = 0 \<and> lastPerformanceCheck (snd (api_step c s)) = 0"
  proof (cases c)
    case (Init config)
    with Cons.prems show ?thesis
      by (simp add: system_init_def Let_def)
  next
    case (Update env)
    with Cons.prems have "tick_second env < 1000" by simp
    then have "\<not> PERFORMANCE_CHECK_INTERVAL \<le> tick_second env - lastPerformanceCheck s"
      using Cons.prems by (simp add: PERFORMANCE_CHECK_INTERVAL_def)
    from system_update_closed [OF this] Update Cons.prems show ?thesis by simp
  next
    case (SetError error)
    with Cons.prems show ?thesis
      by (simp add: system_set_error_def Let_def)
  qed
  from Cons.prems have "\<forall>c\<in>set cs. \<forall>env. c = Update env \<longrightarrow> tick_second env < 1000"
    by simp
  from Cons.IH [OF this] step show ?case
    by (simp add: split_beta)
qed

subsection \<open>Clock bring-up\<close>

text \<open>
  \<open>initialize_clocks\<close> returns 1 whatever the configuration, so \<open>system_init\<close> never
  takes its failure branch: it returns 0, stores the configuration and makes the cache,
  prefetch and banner calls.
\<close>

lemma initialize_clocks_succeeds: "initialize_clocks cfg = 1"
  by (simp add: initialize_clocks_def Let_def)

lemma system_init_returns_zero: "fst (system_init config s) = 0"
  by (simp add: system_init_def initialize_clocks_succeeds Let_def)

subsection \<open>The health snapshot\<close>

text \<open>
  C4, as stated, fails: two calls of \<open>system_update\<close> at ticks 5 and 15 fall in the
  same 1000 ms window and neither recomputes the CPU figure, yet the uptime read back
  moves from 5 to 15 and the free heap from 4096 to 2048. Uptime and free heap are
  written at the top of every call, outside the window test.
\<close>

theorem health_snapshot_counterexample:
  "fst (system_update (sample 5 4096) initial_state) = []
   \<and> fst (system_update (sample 15 2048) (snd (system_update (sample 5 4096) initial_state))) = []
   \<and> system_get_uptime (snd (system_update (sample 5 4096) initial_state)) = 5
   \<and> system_get_uptime
        (snd (system_update (sample 15 2048) (snd (system_update (sample 5 4096) initial_state)))) = 15
   \<and> system_get_free_heap (snd (system_update (sample 5 4096) initial_state)) = 4096
   \<and> system_get_free_heap
        (snd (system_update (sample 15 2048) (snd (system_update (sample 5 4096) initial_state)))) = 2048"
  by (simp add: system_update_def sample_def initial_state_def Let_def tick_unit
      PERFORMANCE_CHECK_INTERVAL_def system_get_uptime_def system_get_free_heap_def)

text \<open>
  C4, amended. Of the three snapshot values only \<open>cpuUtilization\<close> is gated by the
  window. For samples in time order that all lie within one span of less than 1000 ms,
  none before the last check, the Supervisor's loop calls \<open>calculate_cpu_usage\<close> at
  most once, however many iterations there are; a call whose window test fails makes no
  outside call and leaves the CPU figure as it was; every call sets the uptime to
  the tick count just read and the free heap to the size just read.
\<close>

theorem cpu_recomputed_once_per_window:
  assumes "sorted (map (unat \<circ> tick_second) envs)"
      and "\<forall>env\<in>set envs. unat (lastPerformanceCheck s) \<le> unat (tick_second env)"
      and "\<forall>env\<in>set envs. \<forall>env'\<in>set envs.
             unat (tick_second env') < unat (tick_second env) + 1000"
  shows "count_list (fst (supervisor_loop envs s)) Call_calculate_cpu_usage \<le> 1
       \<and> (\<forall>env s'. \<not> 1000 \<le> tick_second env - lastPerformanceCheck s' \<longrightarrow>
             fst (system_update env s') = []
             \<and> system_get_cpu_usage (snd (system_update env s')) = system_get_cpu_usage s')
       \<and> (\<forall>env s'. system_get_uptime (snd (system_update env s')) = tick_first env
             \<and> system_get_free_heap (snd (system_update env s')) = free_heap env)"
proof (intro conjI allI impI)
  show "count_list (fst (supervisor_loop envs s)) Call_calculate_cpu_usage \<le> 1"
    using assms by (rule supervisor_loop_window)
next
  fix env :: rtos_env and s' :: system_state
  assume "\<not> 1000 \<le> tick_second env - lastPerformanceCheck s'"
  then have c: "system_update env s' =
      ([], s'\<lparr>systemUptime := tick_first env, freeHeapSize := free_heap env\<rparr>)"
    by (simp add: system_update_closed PERFORMANCE_CHECK_INTERVAL_def)
  show "fst (system_update env s') = []" by (simp add: c)
  show "system_get_cpu_usage (snd (system_update env s')) = system_get_cpu_usage s'"
    by (simp add: c system_get_cpu_usage_def)
next
  fix env :: rtos_env and s' :: system_state
  show "system_get_uptime (snd (system_update env s')) = tick_first env"
    by (simp add: system_update_def Let_def tick_unit system_get_uptime_def)
  show "system_get_free_heap (snd (system_update env s')) = free_heap env"
    by (simp add: system_update_def Let_def tick_unit system_get_free_heap_def)
qed

theorem cpu_recomputed_once_per_window_witness:
  "count_list (fst (supervisor_loop [sample 1000 4096, sample 1010 4096, sample 1990 4096]
       initial_state)) Call_calculate_cpu_usage \<le> 1
   \<and> system_get_cpu_usage (snd (system_update (sample 1010 4096)
          (snd (system_update (sample 1000 4096) initial_state))))
       = system_get_cpu_usage (snd (system_update (sample 1000 4096) initial_state))
   \<and> system_get_uptime (snd (system_update (sample 1010 4096)
          (snd (system_update (sample 1000 4096) initial_state)))) = 1010"
proof -
  let ?envs = "[sample 1000 4096, sample 1010 4096, sample 1990 4096]"
  let ?s1 = "snd (system_update (sample 1000 4096) initial_state)"
  have h1: "sorted (map (unat \<circ> tick_second) ?envs)"
    by (simp add: sample_def)
  have h2: "\<forall>env\<in>set ?envs. unat (lastPerformanceCheck initial_state) \<le> unat (tick_second env)"
    by (simp add: sample_def initial_state_def)
  have h3: "\<forall>env\<in>set ?envs. \<forall>env'\<in>set ?envs.
             unat (tick_second env') < unat (tick_second env) + 1000"
    by (simp add: sample_def)
  have h4: "\<not> 1000 \<le> tick_second (sample 1010 4096) - lastPerformanceCheck ?s1"
    by (simp add: system_update_def sample_def initial_state_def Let_def tick_unit
        PERFORMANCE_CHECK_INTERVAL_def)
  note t = cpu_recomputed_once_per_window [OF h1 h2 h3]
  from t have "count_list (fst (supervisor_loop ?envs initial_state)) Call_calculate_cpu_usage \<le> 1"
    by blast
  moreover from t h4 have "system_get_cpu_usage (snd (system_update (sample 1010 4096) ?s1))
       = system_get_cpu_usage ?s1"
    by blast
  moreover from t have "system_get_uptime (snd (system_update (sample 1010 4096) ?s1))
       = tick_first (sample 1010 4096)"
    by blast
  ultimately show ?thesis by (simp add: sample_def)
qed

subsection \<open>The low-memory hook\<close>

text \<open>
  C6. While every sample of the free heap is below the configured threshold, the loop
  calls \<open>memory_saving_mode\<close> exactly as often as it recomputes the CPU figure, once
  per opened window; and in any single \<open>system_update\<close> the hook is called once when
  the window test passes and the heap is below the threshold, and not at all otherwise,
  so never on an iteration that opens no window.
\<close>

theorem low_memory_hook_once_per_recomputation:
  assumes "\<forall>env\<in>set envs. free_heap env < criticalHeapThreshold (sysConfig s)"
  shows "count_list (fst (supervisor_loop envs s)) Call_memory_saving_mode
           = count_list (fst (supervisor_loop envs s)) Call_calculate_cpu_usage
       \<and> count_list (fst (system_update env s')) Call_memory_saving_mode
           = (if 1000 \<le> tick_second env - lastPerformanceCheck s'
                 \<and> free_heap env < criticalHeapThreshold (sysConfig s') then 1 else 0)"
  using supervisor_loop_hooks [OF assms]
  by (simp add: system_update_hook PERFORMANCE_CHECK_INTERVAL_def)

theorem low_memory_hook_once_per_recomputation_witness:
  "count_list (fst (supervisor_loop
       [sample 1000 512, sample 1010 512, sample 2000 256, sample 2010 256]
       (snd (snd (system_init low_memory_config initial_state))))) Call_memory_saving_mode = 2
   \<and> count_list (fst (supervisor_loop
       [sample 1000 512, sample 1010 512, sample 2000 256, sample 2010 256]
       (snd (snd (system_init low_memory_config initial_state))))) Call_calculate_cpu_usage = 2
   \<and> count_list (fst (system_update (sample 1010 512)
       (snd (system_update (sample 1000 512)
          (snd (snd (system_init low_memory_config initial_state)))))))
       Call_memory_saving_mode = 0"
proof -
  let ?envs = "[sample 1000 512, sample 1010 512, sample 2000 256, sample 2010 256]"
  let ?s = "snd (snd (system_init low_memory_config initial_state))"
  have s: "?s = initial_state\<lparr>sysConfig := low_memory_config\<rparr>"
    by (simp add: system_init_def initialize_clocks_def Let_def)
  have h: "\<forall>env\<in>set ?envs. free_heap env < criticalHeapThreshold (sysConfig ?s)"
    unfolding s by (simp add: sample_def low_memory_config_def)
  have c: "count_list (fst (supervisor_loop ?envs ?s)) Call_calculate_cpu_usage = 2"
    unfolding s by (simp add: system_update_def sample_def initial_state_def Let_def tick_unit
        PERFORMANCE_CHECK_INTERVAL_def low_memory_config_def split_beta)
  note t = low_memory_hook_once_per_recomputation [OF h, of "sample 1010 512"
      "snd (system_update (sample 1000 512) ?s)"]
  have g: "\<not> 1000 \<le> tick_second (sample 1010 512)
             - lastPerformanceCheck (snd (system_update (sample 1000 512) ?s))"
    unfolding s by (simp add: system_update_def sample_def initial_state_def Let_def tick_unit
        PERFORMANCE_CHECK_INTERVAL_def)
  from t c g show ?thesis by simp
qed

subsection \<open>The diagnostic reader at start-up\<close>

text \<open>
  C10. \<open>system_get_cpu_usage\<close> returns 0 in the initial state, and still returns 0
  after any run of calls into the module in which every \<open>system_update\<close> read a time
  below 1000 ms, that is, before the first window has elapsed.
\<close>

theorem cpu_usage_zero_before_first_window:
  assumes "\<forall>c\<in>set cs. \<forall>env. c = Update env \<longrightarrow> tick_second env < 1000"
  shows "system_get_cpu_usage initial_state = 0
       \<and> system_get_cpu_usage (snd (api_run cs initial_state)) = 0"
  using api_run_early [OF assms, of initial_state]
  by (simp add: system_get_cpu_usage_def initial_state_def)

theorem cpu_usage_zero_before_first_window_witness:
  "system_get_cpu_usage (snd (api_run
      [Init low_memory_config, Update (sample 10 4096), SetError ERROR_FS_INIT_FAILED,
       Update (sample 999 4096)] initial_state)) = 0"
proof -
  have "\<forall>c\<in>set [Init low_memory_config, Update (sample 10 4096),
                   SetError ERROR_FS_INIT_FAILED, Update (sample 999 4096)].
          \<forall>env. c = Update env \<longrightarrow> tick_second env < 1000"
    by (simp add: sample_def)
  from cpu_usage_zero_before_first_window [OF this] show ?thesis by simp
qed

subsection \<open>The CPU figure\<close>

text \<open>
  Where \<open>calculate_cpu_usage\<close> is right: it reports 0 when the task table could not be
  allocated, when the total run time is 0, and when no task is named IDLE; and when the
  idle counter does not exceed the total and its hundredfold fits 32 bits, the result
  is 100 minus the idle share.
\<close>

lemma idle_scan_no_idle:
  "\<forall>t\<in>set ts. pcTaskName t \<noteq> ''IDLE'' \<Longrightarrow> idle_scan ts tot u = u"
  by (induction ts) auto

lemma calculate_cpu_usage_unavailable:
  "calculate_cpu_usage None tot = 0"
  "calculate_cpu_usage (Some ts) 0 = 0"
  "\<forall>t\<in>set ts. pcTaskName t \<noteq> ''IDLE'' \<Longrightarrow> calculate_cpu_usage (Some ts) tot = 0"
  by (simp_all add: calculate_cpu_usage_def idle_scan_no_idle)

lemma idle_share:
  fixes idle tot :: "32 word"
  assumes "unat idle * 100 < 2 ^ 32" and "idle \<le> tot" and "0 < tot"
  shows "unat (ucast (100 - (idle * 100) div tot) :: 8 word) = 100 - unat idle * 100 div unat tot"
proof -
  have m: "unat (idle * 100) = unat idle * 100"
    using assms(1) by (simp add: unat_word_ariths)
  have d: "unat ((idle * 100) div tot) = unat idle * 100 div unat tot"
    by (simp add: unat_div m)
  have "unat idle \<le> unat tot" using assms(2) by (simp add: word_le_nat_alt)
  moreover have "0 < unat tot" using assms(3) by (simp add: word_less_nat_alt)
  ultimately have q: "unat idle * 100 div unat tot \<le> 100"
    by (metis div_le_mono div_mult_self_is_m mult.commute mult_le_mono1)
  then have le: "(idle * 100) div tot \<le> 100"
    by (simp add: word_le_nat_alt d)
  have s: "unat (100 - (idle * 100) div tot) = 100 - unat idle * 100 div unat tot"
    using unat_sub [OF le] by (simp add: d)
  have "unat (ucast (100 - (idle * 100) div tot) :: 8 word)
      = unat (100 - (idle * 100) div tot) mod 2 ^ 8"
    by (simp add: unsigned_ucast_eq take_bit_eq_mod)
  with s show ?thesis by simp
qed

lemma calculate_cpu_usage_exact:
  assumes "\<forall>u\<in>set pre. pcTaskName u \<noteq> ''IDLE''" and "pcTaskName t = ''IDLE''"
      and "unat (ulRunTimeCounter t) * 100 < 2 ^ 32"
      and "ulRunTimeCounter t \<le> tot" and "0 < tot"
  shows "unat (calculate_cpu_usage (Some (pre @ t # ts)) tot)
           = 100 - unat (ulRunTimeCounter t) * 100 div unat tot"
proof -
  have "idle_scan (pre @ t # ts) tot 0
          = ucast (100 - (ulRunTimeCounter t * 100) div tot)"
    using assms(1,2) by (induction pre) auto
  with assms(5) idle_share [OF assms(3,4,5)] show ?thesis
    by (simp add: calculate_cpu_usage_def)
qed

text \<open>
  C5 at two inputs. With an idle counter of 45,000,000 out of a total of 50,000,000
  (90 percent idle) the product \<open>idleTime * 100\<close> exceeds 32 bits and the function returns 96
  instead of 10; with an idle counter of 2 and a total of 1, as after the total's counter
  has wrapped, it returns 156, outside 0..100.
\<close>

theorem cpu_usage_overflow:
  "calculate_cpu_usage
     (Some [\<lparr>pcTaskName = ''IDLE'', ulRunTimeCounter = 45000000\<rparr>]) 50000000 = 96
   \<and> calculate_cpu_usage (Some [\<lparr>pcTaskName = ''IDLE'', ulRunTimeCounter = 2\<rparr>]) 1 = 156"
  by (simp add: calculate_cpu_usage_def)

section \<open>Theorems about main.c\<close>

subsection \<open>The fields after each FreeRTOS call\<close>

lemmas step_defs = systemTask_def guiTask_def fsTask_def audioTask_def
  emit_def goto_def xSemaphoreTake_def xSemaphoreGive_def vTaskDelete_def vTaskDelay_def
  in_system_def

lemma exec_append: "exec (a @ b) s = exec b (exec a s)"
  by (induction a arbitrary: s) (auto split: option.splits)

lemma emit_fields:
  "pcs (emit t cs s) = pcs s" "holder (emit t cs s) = holder s" "sys (emit t cs s) = sys s"
  "trace (emit t cs s) = trace s @ map (Pair t) cs"
  by (simp_all add: emit_def)

lemma goto_fields:
  "pcs (goto t l s) = (pcs s)(t := l)" "holder (goto t l s) = holder s"
  "sys (goto t l s) = sys s" "trace (goto t l s) = trace s"
  by (simp_all add: goto_def)

lemma xSemaphoreTake_Some:
  "(xSemaphoreTake t m s = Some s') =
     (holder s m = None \<and> s' = emit t [Take m] (s\<lparr>holder := (holder s)(m \<mapsto> t)\<rparr>))"
  by (auto simp: xSemaphoreTake_def)

lemma xSemaphoreGive_fields:
  "pcs (xSemaphoreGive t m s) = pcs s" "holder (xSemaphoreGive t m s) = (holder s)(m := None)"
  "sys (xSemaphoreGive t m s) = sys s" "trace (xSemaphoreGive t m s) = trace s @ [(t, Give m)]"
  by (simp_all add: xSemaphoreGive_def emit_def)

lemma vTaskDelete_fields:
  "pcs (vTaskDelete t s) = (pcs s)(t := L_gone)" "holder (vTaskDelete t s) = holder s"
  "sys (vTaskDelete t s) = sys s" "trace (vTaskDelete t s) = trace s @ [(t, Delete)]"
  by (simp_all add: vTaskDelete_def emit_def goto_def)

lemma vTaskDelay_fields:
  "pcs (vTaskDelay t ms s) = pcs s" "holder (vTaskDelay t ms s) = holder s"
  "sys (vTaskDelay t ms s) = sys s" "trace (vTaskDelay t ms s) = trace s @ [(t, Delay ms)]"
  by (simp_all add: vTaskDelay_def emit_def)

lemma in_system_fields:
  "pcs (in_system t f s) = pcs s" "holder (in_system t f s) = holder s"
  "sys (in_system t f s) = snd (f (sys s))"
  "trace (in_system t f s) = trace s @ map (Pair t) (map Sys (fst (f (sys s))))"
  by (simp_all add: in_system_def emit_def)

lemmas kernel_fields = emit_fields goto_fields xSemaphoreGive_fields vTaskDelete_fields
  vTaskDelay_fields in_system_fields

subsection \<open>The lock discipline holds in every reachable state\<close>

lemma lock_discipline_boot: "lock_discipline main_boot"
  by (simp add: lock_discipline_def main_boot_def)

lemma lock_discipline_systemTask:
  "lock_discipline s \<Longrightarrow> systemTask i s = Some s' \<Longrightarrow> lock_discipline s'"
  by (cases "pcs s SYS"; clarsimp simp: systemTask_def lock_discipline_def kernel_fields)

lemma lock_discipline_fsTask:
  "lock_discipline s \<Longrightarrow> fsTask i s = Some s' \<Longrightarrow> lock_discipline s'"
  by (cases "pcs s FS";
      clarsimp simp: fsTask_def xSemaphoreTake_Some lock_discipline_def kernel_fields
        split: if_split_asm)

lemma lock_discipline_audioTask:
  "lock_discipline s \<Longrightarrow> audioTask i s = Some s' \<Longrightarrow> lock_discipline s'"
  by (cases "pcs s AUDIO";
      clarsimp simp: audioTask_def xSemaphoreTake_Some lock_discipline_def kernel_fields
        split: if_split_asm)

lemma lock_discipline_guiTask:
  "lock_discipline s \<Longrightarrow> guiTask i s = Some s' \<Longrightarrow> lock_discipline s'"
  by (cases "pcs s GUI";
      clarsimp simp: guiTask_def xSemaphoreTake_Some lock_discipline_def kernel_fields
        split: if_split_asm)

lemma lock_discipline_step:
  assumes "lock_discipline s" and "task_step t i s = Some s'"
  shows "lock_discipline s'"
proof (cases t)
  case SYS
  with assms(2) have "systemTask i s = Some s'" by simp
  from lock_discipline_systemTask [OF assms(1) this] show ?thesis .
next
  case FS
  with assms(2) have "fsTask i s = Some s'" by simp
  from lock_discipline_fsTask [OF assms(1) this] show ?thesis .
next
  case AUDIO
  with assms(2) have "audioTask i s = Some s'" by simp
  from lock_discipline_audioTask [OF assms(1) this] show ?thesis .
next
  case GUI
  with assms(2) have "guiTask i s = Some s'" by simp
  from lock_discipline_guiTask [OF assms(1) this] show ?thesis .
qed

lemma lock_discipline_exec:
  "lock_discipline s \<Longrightarrow> lock_discipline (exec sched s)"
proof (induction sched arbitrary: s)
  case Nil
  then show ?case by simp
next
  case (Cons x sched)
  obtain t i where x: "x = (t, i)" by (cases x)
  show ?case
  proof (cases "task_step t i s")
    case None
    with Cons x show ?thesis by simp
  next
    case (Some s')
    with Cons.prems have "lock_discipline s'" by (rule lock_discipline_step)
    with Cons.IH Some x show ?thesis by simp
  qed
qed

lemma lock_discipline_reachable: "lock_discipline (exec sched main_boot)"
  by (rule lock_discipline_exec [OF lock_discipline_boot])

lemma live_task_can_step:
  "lock_discipline s \<Longrightarrow> pcs s t \<noteq> L_gone \<Longrightarrow> task_step t i s \<noteq> None"
proof (cases t)
  case SYS
  assume "lock_discipline s" "pcs s t \<noteq> L_gone"
  with SYS show ?thesis
    by (cases "pcs s SYS"; simp add: systemTask_def lock_discipline_def)
next
  case FS
  assume "lock_discipline s" "pcs s t \<noteq> L_gone"
  with FS show ?thesis
    by (cases "pcs s FS"; simp add: fsTask_def lock_discipline_def xSemaphoreTake_def)
next
  case AUDIO
  assume "lock_discipline s" "pcs s t \<noteq> L_gone"
  with AUDIO show ?thesis
    by (cases "pcs s AUDIO"; simp add: audioTask_def lock_discipline_def xSemaphoreTake_def)
next
  case GUI
  assume "lock_discipline s" "pcs s t \<noteq> L_gone"
  with GUI show ?thesis
    by (cases "pcs s GUI"; simp add: guiTask_def lock_discipline_def xSemaphoreTake_def)
qed

lemma held_by_discipline:
  "lock_discipline s \<Longrightarrow>
     held_by s t = (if pcs s t = L_tick \<or> pcs s t = L_give then own_mutex t else [])"
  by (cases t; simp add: lock_discipline_def held_by_def)

lemma gone_task_no_step: "pcs s t = L_gone \<Longrightarrow> task_step t i s = None"
  by (cases t; simp add: systemTask_def fsTask_def audioTask_def guiTask_def)

lemma systemTask_other_pc:
  "systemTask i s = Some s' \<Longrightarrow> u \<noteq> SYS \<Longrightarrow> pcs s' u = pcs s u"
  by (cases "pcs s SYS"; clarsimp simp: systemTask_def kernel_fields)

lemma fsTask_other_pc:
  "fsTask i s = Some s' \<Longrightarrow> u \<noteq> FS \<Longrightarrow> pcs s' u = pcs s u"
  by (cases "pcs s FS";
      clarsimp simp: fsTask_def xSemaphoreTake_Some kernel_fields split: if_split_asm)

lemma audioTask_other_pc:
  "audioTask i s = Some s' \<Longrightarrow> u \<noteq> AUDIO \<Longrightarrow> pcs s' u = pcs s u"
  by (cases "pcs s AUDIO";
      clarsimp simp: audioTask_def xSemaphoreTake_Some kernel_fields split: if_split_asm)

lemma guiTask_other_pc:
  "guiTask i s = Some s' \<Longrightarrow> u \<noteq> GUI \<Longrightarrow> pcs s' u = pcs s u"
  by (cases "pcs s GUI";
      clarsimp simp: guiTask_def xSemaphoreTake_Some kernel_fields split: if_split_asm)

lemma step_other_pc:
  "task_step t i s = Some s' \<Longrightarrow> u \<noteq> t \<Longrightarrow> pcs s' u = pcs s u"
  by (cases t)
    (simp_all add: systemTask_other_pc fsTask_other_pc audioTask_other_pc guiTask_other_pc)

lemma gone_stays_gone: "pcs s t = L_gone \<Longrightarrow> pcs (exec sched s) t = L_gone"
proof (induction sched arbitrary: s)
  case Nil
  then show ?case by simp
next
  case (Cons x sched)
  obtain u i where x: "x = (u, i)" by (cases x)
  show ?case
  proof (cases "task_step u i s")
    case None
    with Cons x show ?thesis by simp
  next
    case (Some s')
    with Cons.prems have "u \<noteq> t" by (auto simp: gone_task_no_step)
    with Some Cons.prems have "pcs s' t = L_gone" by (simp add: step_other_pc)
    with Cons.IH Some x show ?thesis by simp
  qed
qed

subsection \<open>What the other tasks leave alone\<close>

lemma systemTask_storage_frame:
  "systemTask i s = Some s' \<Longrightarrow>
     currentError (sys s') = currentError (sys s)
   \<and> ((FS, Call_fs_update) \<in> set (trace s')) = ((FS, Call_fs_update) \<in> set (trace s))"
  by (cases "pcs s SYS";
      clarsimp simp: systemTask_def kernel_fields system_update_currentError
        system_init_currentError)
    auto

lemma audioTask_sys:
  "audioTask i s = Some s' \<Longrightarrow>
     sys s' = sys s
   \<and> ((FS, Call_fs_update) \<in> set (trace s')) = ((FS, Call_fs_update) \<in> set (trace s))"
  by (cases "pcs s AUDIO";
      clarsimp simp: audioTask_def xSemaphoreTake_Some kernel_fields split: if_split_asm)

lemma guiTask_sys:
  "guiTask i s = Some s' \<Longrightarrow>
     sys s' = sys s
   \<and> ((FS, Call_fs_update) \<in> set (trace s')) = ((FS, Call_fs_update) \<in> set (trace s))"
  by (cases "pcs s GUI";
      clarsimp simp: guiTask_def xSemaphoreTake_Some kernel_fields split: if_split_asm)

lemma other_task_storage_frame:
  assumes "t \<noteq> FS" and "task_step t i s = Some s'"
  shows "pcs s' FS = pcs s FS
       \<and> currentError (sys s') = currentError (sys s)
       \<and> ((FS, Call_fs_update) \<in> set (trace s')) = ((FS, Call_fs_update) \<in> set (trace s))"
proof -
  from assms have pc: "pcs s' FS = pcs s FS"
    using step_other_pc [of t i s s' FS] by simp
  show ?thesis
  proof (cases t)
    case SYS
    with assms(2) have "systemTask i s = Some s'" by simp
    from systemTask_storage_frame [OF this] pc show ?thesis by simp
  next
    case FS
    with assms(1) show ?thesis by simp
  next
    case AUDIO
    with assms(2) have "audioTask i s = Some s'" by simp
    from audioTask_sys [OF this] pc show ?thesis by simp
  next
    case GUI
    with assms(2) have "guiTask i s = Some s'" by simp
    from guiTask_sys [OF this] pc show ?thesis by simp
  qed
qed

lemma storage_gone_frozen:
  "pcs s FS = L_gone \<Longrightarrow>
     pcs (exec sched s) FS = L_gone
   \<and> currentError (sys (exec sched s)) = currentError (sys s)
   \<and> ((FS, Call_fs_update) \<in> set (trace (exec sched s))) = ((FS, Call_fs_update) \<in> set (trace s))"
proof (induction sched arbitrary: s)
  case Nil
  then show ?case by simp
next
  case (Cons x sched)
  obtain t i where x: "x = (t, i)" by (cases x)
  show ?case
  proof (cases "task_step t i s")
    case None
    with Cons x show ?thesis by simp
  next
    case (Some s')
    have "t \<noteq> FS"
    proof
      assume "t = FS"
      with Cons.prems have "task_step t i s = None" by (simp only: gone_task_no_step)
      with Some show False by simp
    qed
    from other_task_storage_frame [OF this Some] Cons.prems Cons.IH [of s'] Some x
    show ?thesis by simp
  qed
qed

subsection \<open>The Storage task's bring-up\<close>

lemma fsTask_init_failed:
  "pcs s FS = L_init \<Longrightarrow> sd_card_init_result i \<noteq> SD_CARD_OK \<Longrightarrow>
   fsTask i s = Some (vTaskDelete FS (in_system FS (system_set_error ERROR_FS_INIT_FAILED) s))"
  by (simp add: fsTask_def)

lemma fsTask_init_ok:
  "pcs s FS = L_init \<Longrightarrow> sd_card_init_result i = SD_CARD_OK \<Longrightarrow>
   fsTask i s = Some (goto FS L_mount s)"
  by (simp add: fsTask_def)

lemma fsTask_mount_failed:
  "pcs s FS = L_mount \<Longrightarrow> fs_init_result i \<noteq> FS_OK \<Longrightarrow>
   fsTask i s = Some (vTaskDelete FS (in_system FS (system_set_error ERROR_FS_MOUNT_FAILED) s))"
  by (simp add: fsTask_def)

lemma report_and_delete:
  "pcs (vTaskDelete FS (in_system FS (system_set_error e) s)) FS = L_gone
   \<and> currentError (sys (vTaskDelete FS (in_system FS (system_set_error e) s))) = e
   \<and> ((FS, Call_fs_update) \<in> set (trace (vTaskDelete FS (in_system FS (system_set_error e) s))))
       = ((FS, Call_fs_update) \<in> set (trace s))"
  by (auto simp: kernel_fields system_set_error_currentError)

lemma storage_init_failure_run:
  assumes "\<forall>x\<in>set sched. sd_card_init_result (snd x) \<noteq> SD_CARD_OK"
      and "pcs s FS = L_init" and "currentError (sys s) = ERROR_NONE"
      and "(FS, Call_fs_update) \<notin> set (trace s)"
  shows "(FS, Call_fs_update) \<notin> set (trace (exec sched s))
       \<and> (if FS \<in> fst ` set sched
          then pcs (exec sched s) FS = L_gone
             \<and> currentError (sys (exec sched s)) = ERROR_FS_INIT_FAILED
          else pcs (exec sched s) FS = L_init
             \<and> currentError (sys (exec sched s)) = ERROR_NONE)"
  using assms
proof (induction sched arbitrary: s)
  case Nil
  then show ?case by simp
next
  case (Cons x sched)
  obtain t i where x: "x = (t, i)" by (cases x)
  from Cons.prems(1) have rest: "\<forall>x\<in>set sched. sd_card_init_result (snd x) \<noteq> SD_CARD_OK"
    by simp
  show ?case
  proof (cases "t = FS")
    case True
    let ?s' = "vTaskDelete FS (in_system FS (system_set_error ERROR_FS_INIT_FAILED) s)"
    from Cons.prems x have "sd_card_init_result i \<noteq> SD_CARD_OK" by simp
    with Cons.prems(2) have step: "task_step FS i s = Some ?s'"
      by (simp add: fsTask_init_failed)
    have gone: "pcs ?s' FS = L_gone" by (simp add: report_and_delete)
    from storage_gone_frozen [OF gone, of sched] report_and_delete [of ERROR_FS_INIT_FAILED s]
      Cons.prems(4) step True x
    show ?thesis by simp
  next
    case False
    show ?thesis
    proof (cases "task_step t i s")
      case None
      with Cons.IH [OF rest Cons.prems(2-4)] False x show ?thesis by simp
    next
      case (Some s')
      from other_task_storage_frame [OF False Some] Cons.prems
      have "pcs s' FS = L_init" "currentError (sys s') = ERROR_NONE"
        "(FS, Call_fs_update) \<notin> set (trace s')"
        by simp_all
      from Cons.IH [OF rest this] Some False x show ?thesis by simp
    qed
  qed
qed

lemma storage_mount_failure_run:
  assumes "\<forall>x\<in>set sched. fs_init_result (snd x) \<noteq> FS_OK"
      and "pcs s FS = L_mount" and "currentError (sys s) = ERROR_NONE"
      and "(FS, Call_fs_update) \<notin> set (trace s)"
  shows "(FS, Call_fs_update) \<notin> set (trace (exec sched s))
       \<and> (if FS \<in> fst ` set sched
          then pcs (exec sched s) FS = L_gone
             \<and> currentError (sys (exec sched s)) = ERROR_FS_MOUNT_FAILED
          else pcs (exec sched s) FS = L_mount
             \<and> currentError (sys (exec sched s)) = ERROR_NONE)"
  using assms
proof (induction sched arbitrary: s)
  case Nil
  then show ?case by simp
next
  case (Cons x sched)
  obtain t i where x: "x = (t, i)" by (cases x)
  from Cons.prems(1) have rest: "\<forall>x\<in>set sched. fs_init_result (snd x) \<noteq> FS_OK"
    by simp
  show ?case
  proof (cases "t = FS")
    case True
    let ?s' = "vTaskDelete FS (in_system FS (system_set_error ERROR_FS_MOUNT_FAILED) s)"
    from Cons.prems x have "fs_init_result i \<noteq> FS_OK" by simp
    with Cons.prems(2) have step: "task_step FS i s = Some ?s'"
      by (simp add: fsTask_mount_failed)
    have gone: "pcs ?s' FS = L_gone" by (simp add: report_and_delete)
    from storage_gone_frozen [OF gone, of sched] report_and_delete [of ERROR_FS_MOUNT_FAILED s]
      Cons.prems(4) step True x
    show ?thesis by simp
  next
    case False
    show ?thesis
    proof (cases "task_step t i s")
      case None
      with Cons.IH [OF rest Cons.prems(2-4)] False x show ?thesis by simp
    next
      case (Some s')
      from other_task_storage_frame [OF False Some] Cons.prems
      have "pcs s' FS = L_mount" "currentError (sys s') = ERROR_NONE"
        "(FS, Call_fs_update) \<notin> set (trace s')"
        by simp_all
      from Cons.IH [OF rest this] Some False x show ?thesis by simp
    qed
  qed
qed

lemma storage_mount_failure_from_init:
  assumes "\<forall>x\<in>set sched. sd_card_init_result (snd x) = SD_CARD_OK \<and> fs_init_result (snd x) \<noteq> FS_OK"
      and "pcs s FS = L_init" and "currentError (sys s) = ERROR_NONE"
      and "(FS, Call_fs_update) \<notin> set (trace s)"
  shows "(FS, Call_fs_update) \<notin> set (trace (exec sched s))
       \<and> currentError (sys (exec sched s)) \<noteq> ERROR_FS_INIT_FAILED
       \<and> (2 \<le> length (filter (\<lambda>x. fst x = FS) sched) \<longrightarrow>
            pcs (exec sched s) FS = L_gone
          \<and> currentError (sys (exec sched s)) = ERROR_FS_MOUNT_FAILED)"
  using assms
proof (induction sched arbitrary: s)
  case Nil
  then show ?case by simp
next
  case (Cons x sched)
  obtain t i where x: "x = (t, i)" by (cases x)
  from Cons.prems(1) have rest:
    "\<forall>x\<in>set sched. sd_card_init_result (snd x) = SD_CARD_OK \<and> fs_init_result (snd x) \<noteq> FS_OK"
    by simp
  then have rest': "\<forall>x\<in>set sched. fs_init_result (snd x) \<noteq> FS_OK" by simp
  show ?case
  proof (cases "t = FS")
    case True
    let ?s' = "goto FS L_mount s"
    from Cons.prems x have "sd_card_init_result i = SD_CARD_OK" by simp
    with Cons.prems(2) have step: "task_step FS i s = Some ?s'"
      by (simp add: fsTask_init_ok)
    have "pcs ?s' FS = L_mount" "currentError (sys ?s') = ERROR_NONE"
      "(FS, Call_fs_update) \<notin> set (trace ?s')"
      using Cons.prems by (simp_all add: kernel_fields)
    from storage_mount_failure_run [OF rest' this]
    have "(FS, Call_fs_update) \<notin> set (trace (exec sched ?s'))"
      and "currentError (sys (exec sched ?s')) \<noteq> ERROR_FS_INIT_FAILED"
      and "FS \<in> fst ` set sched \<Longrightarrow> pcs (exec sched ?s') FS = L_gone
             \<and> currentError (sys (exec sched ?s')) = ERROR_FS_MOUNT_FAILED"
      by (auto split: if_split_asm)
    moreover have "1 \<le> length (filter (\<lambda>x. fst x = FS) sched) \<Longrightarrow> FS \<in> fst ` set sched"
    proof -
      assume "1 \<le> length (filter (\<lambda>x. fst x = FS) sched)"
      then have "filter (\<lambda>x. fst x = FS) sched \<noteq> []" by auto
      then obtain y where "y \<in> set sched" "fst y = FS" by (auto simp: filter_empty_conv)
      then show "FS \<in> fst ` set sched" by force
    qed
    ultimately show ?thesis using step True x by simp
  next
    case False
    show ?thesis
    proof (cases "task_step t i s")
      case None
      with Cons.IH [OF rest Cons.prems(2-4)] False x show ?thesis by simp
    next
      case (Some s')
      from other_task_storage_frame [OF False Some] Cons.prems
      have "pcs s' FS = L_init" "currentError (sys s') = ERROR_NONE"
        "(FS, Call_fs_update) \<notin> set (trace s')"
        by simp_all
      from Cons.IH [OF rest this] Some False x show ?thesis by simp
    qed
  qed
qed

lemma boot_storage:
  "pcs main_boot FS = L_init" "currentError (sys main_boot) = ERROR_NONE"
  "(FS, Call_fs_update) \<notin> set (trace main_boot)"
  by (simp_all add: main_boot_def initial_state_def)

text \<open>
  C1. In every execution from boot in which \<open>sd_card_init\<close> fails whenever called, the
  Storage task never calls \<open>fs_update\<close> and the fault code is never
  \<open>ERROR_FS_MOUNT_FAILED\<close>; once the Storage task has been scheduled, the fault code is
  \<open>ERROR_FS_INIT_FAILED\<close> and the task is gone, can take no further step, and stays
  gone in every continuation. In every execution in which \<open>sd_card_init\<close> succeeds and
  \<open>fs_init\<close> fails, the task never calls \<open>fs_update\<close>, the fault code is never
  \<open>ERROR_FS_INIT_FAILED\<close>, and once the task has been scheduled twice the fault code is
  \<open>ERROR_FS_MOUNT_FAILED\<close> and the task is gone for good.
\<close>

theorem storage_bringup_failure:
  "((\<forall>x\<in>set sched. sd_card_init_result (snd x) \<noteq> SD_CARD_OK) \<longrightarrow>
       (FS, Call_fs_update) \<notin> set (trace (exec sched main_boot))
     \<and> system_get_error (sys (exec sched main_boot)) \<noteq> ERROR_FS_MOUNT_FAILED
     \<and> (FS \<in> fst ` set sched \<longrightarrow>
          system_get_error (sys (exec sched main_boot)) = ERROR_FS_INIT_FAILED
        \<and> pcs (exec sched main_boot) FS = L_gone
        \<and> task_step FS j (exec sched main_boot) = None
        \<and> pcs (exec later (exec sched main_boot)) FS = L_gone))
   \<and> ((\<forall>x\<in>set sched. sd_card_init_result (snd x) = SD_CARD_OK
                       \<and> fs_init_result (snd x) \<noteq> FS_OK) \<longrightarrow>
       (FS, Call_fs_update) \<notin> set (trace (exec sched main_boot))
     \<and> system_get_error (sys (exec sched main_boot)) \<noteq> ERROR_FS_INIT_FAILED
     \<and> (2 \<le> length (filter (\<lambda>x. fst x = FS) sched) \<longrightarrow>
          system_get_error (sys (exec sched main_boot)) = ERROR_FS_MOUNT_FAILED
        \<and> pcs (exec sched main_boot) FS = L_gone
        \<and> task_step FS j (exec sched main_boot) = None
        \<and> pcs (exec later (exec sched main_boot)) FS = L_gone))"
proof (intro conjI impI)
  assume a: "\<forall>x\<in>set sched. sd_card_init_result (snd x) \<noteq> SD_CARD_OK"
  note r = storage_init_failure_run [OF a boot_storage]
  from r show "(FS, Call_fs_update) \<notin> set (trace (exec sched main_boot))" by simp
  from r show "system_get_error (sys (exec sched main_boot)) \<noteq> ERROR_FS_MOUNT_FAILED"
    by (auto simp: system_get_error_def split: if_split_asm)
  assume "FS \<in> fst ` set sched"
  with r have g: "pcs (exec sched main_boot) FS = L_gone"
    and e: "currentError (sys (exec sched main_boot)) = ERROR_FS_INIT_FAILED"
    by simp_all
  from e show "system_get_error (sys (exec sched main_boot)) = ERROR_FS_INIT_FAILED"
    by (simp add: system_get_error_def)
  from g show "pcs (exec sched main_boot) FS = L_gone" .
  from g show "task_step FS j (exec sched main_boot) = None" by (rule gone_task_no_step)
  from g show "pcs (exec later (exec sched main_boot)) FS = L_gone" by (rule gone_stays_gone)
next
  assume a: "\<forall>x\<in>set sched. sd_card_init_result (snd x) = SD_CARD_OK
                \<and> fs_init_result (snd x) \<noteq> FS_OK"
  note r = storage_mount_failure_from_init [OF a boot_storage]
  from r show "(FS, Call_fs_update) \<notin> set (trace (exec sched main_boot))" by simp
  from r show "system_get_error (sys (exec sched main_boot)) \<noteq> ERROR_FS_INIT_FAILED"
    by (simp add: system_get_error_def)
  assume "2 \<le> length (filter (\<lambda>x. fst x = FS) sched)"
  with r have g: "pcs (exec sched main_boot) FS = L_gone"
    and e: "currentError (sys (exec sched main_boot)) = ERROR_FS_MOUNT_FAILED"
    by simp_all
  from e show "system_get_error (sys (exec sched main_boot)) = ERROR_FS_MOUNT_FAILED"
    by (simp add: system_get_error_def)
  from g show "pcs (exec sched main_boot) FS = L_gone" .
  from g show "task_step FS j (exec sched main_boot) = None" by (rule gone_task_no_step)
  from g show "pcs (exec later (exec sched main_boot)) FS = L_gone" by (rule gone_stays_gone)
qed

theorem storage_bringup_failure_witness:
  "system_get_error (sys (exec [(SYS, no_card), (FS, no_card), (AUDIO, no_card), (FS, no_card)]
       main_boot)) = ERROR_FS_INIT_FAILED
   \<and> (FS, Call_fs_update) \<notin> set (trace (exec
       [(SYS, no_card), (FS, no_card), (AUDIO, no_card), (FS, no_card)] main_boot))
   \<and> system_get_error (sys (exec
       [(FS, bad_volume), (SYS, bad_volume), (FS, bad_volume), (FS, bad_volume)]
       main_boot)) = ERROR_FS_MOUNT_FAILED
   \<and> (FS, Call_fs_update) \<notin> set (trace (exec
       [(FS, bad_volume), (SYS, bad_volume), (FS, bad_volume), (FS, bad_volume)] main_boot))"
proof -
  let ?a = "[(SYS, no_card), (FS, no_card), (AUDIO, no_card), (FS, no_card)]"
  let ?b = "[(FS, bad_volume), (SYS, bad_volume), (FS, bad_volume), (FS, bad_volume)]"
  have a1: "\<forall>x\<in>set ?a. sd_card_init_result (snd x) \<noteq> SD_CARD_OK"
    by (simp add: no_card_def healthy_def)
  have a2: "FS \<in> fst ` set ?a" by simp
  have b1: "\<forall>x\<in>set ?b. sd_card_init_result (snd x) = SD_CARD_OK
               \<and> fs_init_result (snd x) \<noteq> FS_OK"
    by (simp add: bad_volume_def healthy_def)
  have b2: "2 \<le> length (filter (\<lambda>x. fst x = FS) ?b)" by simp
  from storage_bringup_failure [of ?a] a1 a2
  have "system_get_error (sys (exec ?a main_boot)) = ERROR_FS_INIT_FAILED
      \<and> (FS, Call_fs_update) \<notin> set (trace (exec ?a main_boot))"
    by blast
  moreover from storage_bringup_failure [of ?b] b1 b2
  have "system_get_error (sys (exec ?b main_boot)) = ERROR_FS_MOUNT_FAILED
      \<and> (FS, Call_fs_update) \<notin> set (trace (exec ?b main_boot))"
    by blast
  ultimately show ?thesis by simp
qed

subsection \<open>The peripheral locks\<close>

lemma systemTask_calls_frame:
  "t \<noteq> SYS \<Longrightarrow> systemTask i s = Some s' \<Longrightarrow> calls_of t (trace s') = calls_of t (trace s)"
  by (cases "pcs s SYS";
      clarsimp simp: systemTask_def kernel_fields calls_of_def filter_map o_def)

lemma fsTask_calls_frame:
  "t \<noteq> FS \<Longrightarrow> fsTask i s = Some s' \<Longrightarrow> calls_of t (trace s') = calls_of t (trace s)"
  by (cases "pcs s FS";
      clarsimp simp: fsTask_def xSemaphoreTake_Some kernel_fields calls_of_def filter_map o_def
        split: if_split_asm)

lemma audioTask_calls_frame:
  "t \<noteq> AUDIO \<Longrightarrow> audioTask i s = Some s' \<Longrightarrow> calls_of t (trace s') = calls_of t (trace s)"
  by (cases "pcs s AUDIO";
      clarsimp simp: audioTask_def xSemaphoreTake_Some kernel_fields calls_of_def
        split: if_split_asm)

lemma guiTask_calls_frame:
  "t \<noteq> GUI \<Longrightarrow> guiTask i s = Some s' \<Longrightarrow> calls_of t (trace s') = calls_of t (trace s)"
  by (cases "pcs s GUI";
      clarsimp simp: guiTask_def xSemaphoreTake_Some kernel_fields calls_of_def
        split: if_split_asm)

lemma other_step_calls_frame:
  assumes "u \<noteq> t" and "task_step u i s = Some s'"
  shows "calls_of t (trace s') = calls_of t (trace s)"
proof (cases u)
  case SYS
  with assms show ?thesis using systemTask_calls_frame [of t i s s'] by simp
next
  case FS
  with assms show ?thesis using fsTask_calls_frame [of t i s s'] by simp
next
  case AUDIO
  with assms show ?thesis using audioTask_calls_frame [of t i s s'] by simp
next
  case GUI
  with assms show ?thesis using guiTask_calls_frame [of t i s s'] by simp
qed

text \<open>One step of a healthy task: the place and the calls advance by one.\<close>

lemma loop_index:
  "(m mod 4 = 0 \<and> Suc m mod 4 = 1) \<or> (m mod 4 = 1 \<and> Suc m mod 4 = 2)
   \<or> (m mod 4 = 2 \<and> Suc m mod 4 = 3) \<or> (m mod 4 = 3 \<and> Suc m mod 4 = 0)"
  by presburger

lemma fsTask_healthy_step:
  assumes "lock_discipline s" and "pcs s FS = place FS n"
      and "calls_of FS (trace s) = healthy_calls FS n" and "bringup_ok FS i"
  shows "\<exists>s'. fsTask i s = Some s' \<and> pcs s' FS = place FS (Suc n)
             \<and> calls_of FS (trace s') = healthy_calls FS (Suc n)"
proof -
  consider "n = 0" | "n = 1" | m where "n = m + 2" by (cases n; cases "n - 1") auto
  then show ?thesis
  proof cases
    case 1
    with assms show ?thesis
      by (simp add: place_def fsTask_def kernel_fields)
  next
    case 2
    with assms show ?thesis
      by (simp add: place_def fsTask_def kernel_fields)
  next
    case 3
    from loop_index [of m] 3 assms show ?thesis
      by (auto simp: place_def fsTask_def kernel_fields lock_discipline_def
          xSemaphoreTake_def emit_def calls_of_def)
  qed
qed

lemma audioTask_healthy_step:
  assumes "lock_discipline s" and "pcs s AUDIO = place AUDIO n"
      and "calls_of AUDIO (trace s) = healthy_calls AUDIO n" and "bringup_ok AUDIO i"
  shows "\<exists>s'. audioTask i s = Some s' \<and> pcs s' AUDIO = place AUDIO (Suc n)
             \<and> calls_of AUDIO (trace s') = healthy_calls AUDIO (Suc n)"
proof -
  consider "n = 0" | m where "n = m + 1" by (cases n) auto
  then show ?thesis
  proof cases
    case 1
    with assms show ?thesis
      by (simp add: place_def audioTask_def kernel_fields)
  next
    case 2
    from loop_index [of m] 2 assms show ?thesis
      by (auto simp: place_def audioTask_def kernel_fields lock_discipline_def
          xSemaphoreTake_def emit_def calls_of_def)
  qed
qed

lemma guiTask_healthy_step:
  assumes "lock_discipline s" and "pcs s GUI = place GUI n"
      and "calls_of GUI (trace s) = healthy_calls GUI n" and "bringup_ok GUI i"
  shows "\<exists>s'. guiTask i s = Some s' \<and> pcs s' GUI = place GUI (Suc n)
             \<and> calls_of GUI (trace s') = healthy_calls GUI (Suc n)"
proof -
  consider "n = 0" | "n = 1" | m where "n = m + 2" by (cases n; cases "n - 1") auto
  then show ?thesis
  proof cases
    case 1
    with assms show ?thesis
      by (simp add: place_def guiTask_def kernel_fields)
  next
    case 2
    with assms show ?thesis
      by (simp add: place_def guiTask_def kernel_fields calls_of_def)
  next
    case 3
    from loop_index [of m] 3 assms show ?thesis
      by (auto simp: place_def guiTask_def kernel_fields lock_discipline_def
          xSemaphoreTake_def emit_def calls_of_def)
  qed
qed

lemma healthy_step:
  assumes "t \<noteq> SYS" and "lock_discipline s" and "pcs s t = place t n"
      and "calls_of t (trace s) = healthy_calls t n" and "bringup_ok t i"
  shows "\<exists>s'. task_step t i s = Some s' \<and> pcs s' t = place t (Suc n)
             \<and> calls_of t (trace s') = healthy_calls t (Suc n)"
proof (cases t)
  case SYS
  with assms(1) show ?thesis by simp
next
  case FS
  with assms fsTask_healthy_step [of s n i] show ?thesis by simp
next
  case AUDIO
  with assms audioTask_healthy_step [of s n i] show ?thesis by simp
next
  case GUI
  with assms guiTask_healthy_step [of s n i] show ?thesis by simp
qed

lemma healthy_run:
  assumes "t \<noteq> SYS" and "\<forall>x\<in>set sched. bringup_ok t (snd x)"
      and "lock_discipline s" and "pcs s t = place t n"
      and "calls_of t (trace s) = healthy_calls t n"
  shows "calls_of t (trace (exec sched s))
           = healthy_calls t (n + length (filter (\<lambda>x. fst x = t) sched))"
  using assms(2-)
proof (induction sched arbitrary: s n)
  case Nil
  then show ?case by simp
next
  case (Cons x sched)
  obtain u i where x: "x = (u, i)" by (cases x)
  from Cons.prems(1) have rest: "\<forall>x\<in>set sched. bringup_ok t (snd x)" by simp
  show ?case
  proof (cases "u = t")
    case True
    from Cons.prems(1) x True have "bringup_ok t i" by simp
    from healthy_step [OF assms(1) Cons.prems(2,3,4) this]
    obtain s' where s': "task_step t i s = Some s'" "pcs s' t = place t (Suc n)"
      "calls_of t (trace s') = healthy_calls t (Suc n)"
      by blast
    from Cons.prems(2) s'(1) have "lock_discipline s'" by (rule lock_discipline_step)
    from Cons.IH [OF rest this s'(2,3)] s'(1) True x show ?thesis by simp
  next
    case False
    show ?thesis
    proof (cases "task_step u i s")
      case None
      with Cons.IH [OF rest Cons.prems(2,3,4)] False x show ?thesis by simp
    next
      case (Some s')
      from Cons.prems(2) Some have inv: "lock_discipline s'" by (rule lock_discipline_step)
      from Some False have pc: "pcs s' t = place t n"
        using step_other_pc [of u i s s' t] Cons.prems(3) by simp
      from other_step_calls_frame [OF False Some] Cons.prems(4)
      have "calls_of t (trace s') = healthy_calls t n" by simp
      from Cons.IH [OF rest inv pc this] Some False x show ?thesis by simp
    qed
  qed
qed

lemma boot_place: "t \<noteq> SYS \<Longrightarrow> pcs main_boot t = place t 0"
  by (cases t) (simp_all add: main_boot_def place_def OS_CONFIG_ENABLE_GUI_def)

lemma boot_calls: "calls_of t (trace main_boot) = healthy_calls t 0"
  by (simp add: main_boot_def calls_of_def)

text \<open>Where a step stands when it makes a delay or a service call.\<close>

lemma systemTask_delay:
  "systemTask i s = Some s' \<Longrightarrow> (SYS, Delay d) \<in> set (new_calls s s') \<Longrightarrow> pcs s SYS = L_delay"
  by (cases "pcs s SYS"; clarsimp simp: systemTask_def kernel_fields new_calls_def)

lemma fsTask_delay:
  "fsTask i s = Some s' \<Longrightarrow> (FS, Delay d) \<in> set (new_calls s s') \<Longrightarrow>
   pcs s FS = L_delay \<and> pcs s' FS = L_take"
  by (cases "pcs s FS";
      clarsimp simp: fsTask_def xSemaphoreTake_Some kernel_fields new_calls_def
        split: if_split_asm)

lemma audioTask_delay:
  "audioTask i s = Some s' \<Longrightarrow> (AUDIO, Delay d) \<in> set (new_calls s s') \<Longrightarrow>
   pcs s AUDIO = L_delay \<and> pcs s' AUDIO = L_take"
  by (cases "pcs s AUDIO";
      clarsimp simp: audioTask_def xSemaphoreTake_Some kernel_fields new_calls_def
        split: if_split_asm)

lemma guiTask_delay:
  "guiTask i s = Some s' \<Longrightarrow> (GUI, Delay d) \<in> set (new_calls s s') \<Longrightarrow>
   pcs s GUI = L_delay \<and> pcs s' GUI = L_take"
  by (cases "pcs s GUI";
      clarsimp simp: guiTask_def xSemaphoreTake_Some kernel_fields new_calls_def
        split: if_split_asm)

lemma delay_step_holds_nothing:
  assumes "lock_discipline s" and "task_step t i s = Some s'"
      and "(t, Delay d) \<in> set (new_calls s s')"
  shows "held_by s t = [] \<and> held_by s' t = []"
proof -
  from assms(1,2) have inv': "lock_discipline s'" by (rule lock_discipline_step)
  note h = held_by_discipline [OF assms(1), of t] held_by_discipline [OF inv', of t]
  show ?thesis
  proof (cases t)
    case SYS
    with h show ?thesis by simp
  next
    case FS
    with assms fsTask_delay [of i s s' d] h show ?thesis by simp
  next
    case AUDIO
    with assms audioTask_delay [of i s s' d] h show ?thesis by simp
  next
    case GUI
    with assms guiTask_delay [of i s s' d] h show ?thesis by simp
  qed
qed

lemma systemTask_no_service:
  "systemTask i s = Some s' \<Longrightarrow> (SYS, c) \<in> set (new_calls s s') \<Longrightarrow>
   c \<noteq> Call_fs_update \<and> c \<noteq> Call_audio_update \<and> c \<noteq> Call_gui_update"
  by (cases "pcs s SYS"; clarsimp simp: systemTask_def kernel_fields new_calls_def) auto

lemma fsTask_service:
  "fsTask i s = Some s' \<Longrightarrow> (FS, c) \<in> set (new_calls s s') \<Longrightarrow>
   c = Call_fs_update \<or> c = Call_audio_update \<or> c = Call_gui_update \<Longrightarrow>
   c = Call_fs_update \<and> pcs s FS = L_tick \<and> pcs s' FS = L_give"
  by (cases "pcs s FS";
      clarsimp simp: fsTask_def xSemaphoreTake_Some kernel_fields new_calls_def
        split: if_split_asm) auto

lemma audioTask_service:
  "audioTask i s = Some s' \<Longrightarrow> (AUDIO, c) \<in> set (new_calls s s') \<Longrightarrow>
   c = Call_fs_update \<or> c = Call_audio_update \<or> c = Call_gui_update \<Longrightarrow>
   c = Call_audio_update \<and> pcs s AUDIO = L_tick \<and> pcs s' AUDIO = L_give"
  by (cases "pcs s AUDIO";
      clarsimp simp: audioTask_def xSemaphoreTake_Some kernel_fields new_calls_def
        split: if_split_asm)

lemma guiTask_service:
  "guiTask i s = Some s' \<Longrightarrow> (GUI, c) \<in> set (new_calls s s') \<Longrightarrow>
   c = Call_fs_update \<or> c = Call_audio_update \<or> c = Call_gui_update \<Longrightarrow>
   c = Call_gui_update \<and> pcs s GUI = L_tick \<and> pcs s' GUI = L_give"
  by (cases "pcs s GUI";
      clarsimp simp: guiTask_def xSemaphoreTake_Some kernel_fields new_calls_def
        split: if_split_asm)

lemma service_step_holds_own:
  assumes "lock_discipline s" and "task_step t i s = Some s'"
      and "(t, c) \<in> set (new_calls s s')"
      and "c = Call_fs_update \<or> c = Call_audio_update \<or> c = Call_gui_update"
  shows "service_cycle t ! 1 = c \<and> held_by s t = own_mutex t \<and> held_by s' t = own_mutex t
       \<and> length (own_mutex t) = 1"
proof -
  from assms(1,2) have inv': "lock_discipline s'" by (rule lock_discipline_step)
  note h = held_by_discipline [OF assms(1), of t] held_by_discipline [OF inv', of t]
  show ?thesis
  proof (cases t)
    case SYS
    with assms systemTask_no_service [of i s s' c] show ?thesis by auto
  next
    case FS
    with assms fsTask_service [of i s s' c] h show ?thesis by simp
  next
    case AUDIO
    with assms audioTask_service [of i s s' c] h show ?thesis by simp
  next
    case GUI
    with assms guiTask_service [of i s s' c] h show ?thesis by simp
  qed
qed

text \<open>
  C3. In every state reachable from boot, under any interleaving of the four tasks:
  a task holds at most one of the three mutexes; during its service call it holds exactly
  the mutex its body names, and at its end-of-iteration delay it holds none. At the level
  of calls: a step that makes the \<open>vTaskDelay\<close> call is taken holding no mutex, before
  and after; a step that makes a service call (\<open>fs_update\<close>, \<open>audio_update\<close>,
  \<open>gui_update\<close>) is the task's own service tick and is taken holding exactly the task's
  own mutex, before and after. And a Storage, Audio or Presentation task whose bring-up
  succeeds makes, over its first \<open>n\<close> scheduled steps, exactly the prescribed calls in the
  prescribed order: take, service call, give, delay, again and again, so that each lock
  is released at the end of each service tick, before the sleep.
\<close>

theorem one_lock_per_task:
  "length (held_by (exec sched main_boot) t) \<le> 1
   \<and> (pcs (exec sched main_boot) t = L_tick \<longrightarrow>
        held_by (exec sched main_boot) t = own_mutex t)
   \<and> (pcs (exec sched main_boot) t = L_delay \<longrightarrow> held_by (exec sched main_boot) t = [])
   \<and> (task_step t i (exec sched main_boot) = Some s'
        \<and> (t, Delay d) \<in> set (new_calls (exec sched main_boot) s') \<longrightarrow>
        held_by (exec sched main_boot) t = [] \<and> held_by s' t = [])
   \<and> (task_step t i (exec sched main_boot) = Some s'
        \<and> (t, c) \<in> set (new_calls (exec sched main_boot) s')
        \<and> (c = Call_fs_update \<or> c = Call_audio_update \<or> c = Call_gui_update) \<longrightarrow>
        service_cycle t ! 1 = c
        \<and> held_by (exec sched main_boot) t = own_mutex t \<and> held_by s' t = own_mutex t
        \<and> length (own_mutex t) = 1)
   \<and> (t \<noteq> SYS \<and> (\<forall>x\<in>set sched. bringup_ok t (snd x)) \<longrightarrow>
        calls_of t (trace (exec sched main_boot))
          = healthy_calls t (length (filter (\<lambda>x. fst x = t) sched)))"
proof (intro conjI impI)
  note inv = lock_discipline_reachable [of sched]
  note h = held_by_discipline [OF inv, of t]
  from h show "length (held_by (exec sched main_boot) t) \<le> 1"
    by (cases t) simp_all
  from h show "held_by (exec sched main_boot) t = own_mutex t"
    if "pcs (exec sched main_boot) t = L_tick"
    using that by simp
  from h show "held_by (exec sched main_boot) t = []"
    if "pcs (exec sched main_boot) t = L_delay"
    using that by simp
  show "held_by (exec sched main_boot) t = []" and "held_by s' t = []"
    if "task_step t i (exec sched main_boot) = Some s'
        \<and> (t, Delay d) \<in> set (new_calls (exec sched main_boot) s')"
    using delay_step_holds_nothing [OF inv, of t i s' d] that by simp_all
  show "service_cycle t ! 1 = c" and "held_by (exec sched main_boot) t = own_mutex t"
    and "held_by s' t = own_mutex t" and "length (own_mutex t) = 1"
    if "task_step t i (exec sched main_boot) = Some s'
        \<and> (t, c) \<in> set (new_calls (exec sched main_boot) s')
        \<and> (c = Call_fs_update \<or> c = Call_audio_update \<or> c = Call_gui_update)"
    using service_step_holds_own [OF inv, of t i s' c] that by simp_all
  show "calls_of t (trace (exec sched main_boot))
          = healthy_calls t (length (filter (\<lambda>x. fst x = t) sched))"
    if "t \<noteq> SYS \<and> (\<forall>x\<in>set sched. bringup_ok t (snd x))"
    using healthy_run [of t sched main_boot 0] that
    by (simp add: lock_discipline_boot boot_place boot_calls)
qed

theorem one_lock_per_task_witness:
  "calls_of FS (trace (exec
      [(FS, healthy), (AUDIO, healthy), (FS, healthy), (FS, healthy), (GUI, healthy),
       (FS, healthy), (FS, healthy), (FS, healthy)] main_boot))
     = [Take sdCardMutex, Call_fs_update, Give sdCardMutex, Delay 50]
   \<and> new_calls (exec [(FS, healthy), (FS, healthy), (FS, healthy)] main_boot)
        (exec [(FS, healthy), (FS, healthy), (FS, healthy), (FS, healthy)] main_boot)
       = [(FS, Call_fs_update)]
   \<and> held_by (exec [(FS, healthy), (FS, healthy), (FS, healthy)] main_boot) FS = [sdCardMutex]
   \<and> held_by (exec [(FS, healthy), (FS, healthy), (FS, healthy), (FS, healthy)] main_boot) FS
       = [sdCardMutex]
   \<and> new_calls
        (exec [(FS, healthy), (FS, healthy), (FS, healthy), (FS, healthy), (FS, healthy)] main_boot)
        (exec [(FS, healthy), (FS, healthy), (FS, healthy), (FS, healthy), (FS, healthy),
               (FS, healthy)] main_boot)
       = [(FS, Delay 50)]
   \<and> held_by
        (exec [(FS, healthy), (FS, healthy), (FS, healthy), (FS, healthy), (FS, healthy)] main_boot)
        FS = []
   \<and> held_by
        (exec [(FS, healthy), (FS, healthy), (FS, healthy), (FS, healthy), (FS, healthy),
               (FS, healthy)] main_boot) FS = []"
proof -
  let ?mix = "[(FS, healthy), (AUDIO, healthy), (FS, healthy), (FS, healthy), (GUI, healthy),
               (FS, healthy), (FS, healthy), (FS, healthy)]"
  let ?s3 = "exec [(FS, healthy), (FS, healthy), (FS, healthy)] main_boot"
  let ?s4 = "exec [(FS, healthy), (FS, healthy), (FS, healthy), (FS, healthy)] main_boot"
  let ?s5 = "exec [(FS, healthy), (FS, healthy), (FS, healthy), (FS, healthy), (FS, healthy)]
               main_boot"
  let ?s6 = "exec [(FS, healthy), (FS, healthy), (FS, healthy), (FS, healthy), (FS, healthy),
               (FS, healthy)] main_boot"
  have ok: "FS \<noteq> SYS \<and> (\<forall>x\<in>set ?mix. bringup_ok FS (snd x))"
    by (simp add: healthy_def)
  have six: "healthy_calls FS (length (filter (\<lambda>x. fst x = FS) ?mix))
               = [Take sdCardMutex, Call_fs_update, Give sdCardMutex, Delay 50]"
  proof -
    have "length (filter (\<lambda>x. fst x = FS) ?mix) = Suc (Suc (Suc (Suc (Suc (Suc 0)))))"
      by simp
    then show ?thesis by simp
  qed
  have step4: "task_step FS healthy ?s3 = Some ?s4"
    by (simp add: step_defs main_boot_def healthy_def)
  have new4: "new_calls ?s3 ?s4 = [(FS, Call_fs_update)]"
    by (simp add: new_calls_def step_defs main_boot_def healthy_def)
  have step6: "task_step FS healthy ?s5 = Some ?s6"
    by (simp add: step_defs main_boot_def healthy_def)
  have new6: "new_calls ?s5 ?s6 = [(FS, Delay 50)]"
    by (simp add: new_calls_def step_defs main_boot_def healthy_def)
  have mem4: "(FS, Call_fs_update) \<in> set (new_calls ?s3 ?s4)"
    by (simp only: new4) simp
  have mem6: "(FS, Delay 50) \<in> set (new_calls ?s5 ?s6)"
    by (simp only: new6) simp
  have own: "own_mutex FS = [sdCardMutex]" by simp
  from one_lock_per_task [where sched = ?mix and t = FS] ok
  have "calls_of FS (trace (exec ?mix main_boot))
          = healthy_calls FS (length (filter (\<lambda>x. fst x = FS) ?mix))"
    by blast
  then have a: "calls_of FS (trace (exec ?mix main_boot))
          = [Take sdCardMutex, Call_fs_update, Give sdCardMutex, Delay 50]"
    by (simp only: six)
  from one_lock_per_task [where sched = "[(FS, healthy), (FS, healthy), (FS, healthy)]"
      and t = FS and i = healthy and s' = ?s4 and c = Call_fs_update] step4 mem4
  have "held_by ?s3 FS = own_mutex FS \<and> held_by ?s4 FS = own_mutex FS"
    by blast
  then have b: "held_by ?s3 FS = [sdCardMutex] \<and> held_by ?s4 FS = [sdCardMutex]"
    by (simp only: own)
  from one_lock_per_task [where sched = "[(FS, healthy), (FS, healthy), (FS, healthy),
        (FS, healthy), (FS, healthy)]"
      and t = FS and i = healthy and s' = ?s6 and d = 50] step6 mem6
  have c: "held_by ?s5 FS = [] \<and> held_by ?s6 FS = []"
    by blast
  from a new4 b new6 c show ?thesis by blast
qed

subsection \<open>Audio and display bring-up\<close>

lemma optional_task_init_failed:
  assumes "t = AUDIO \<and> audio_init_result i \<noteq> AUDIO_OK
         \<or> t = GUI \<and> display_init_result i \<noteq> DISPLAY_OK"
      and "pcs s t = L_init"
  shows "task_step t i s = Some (vTaskDelete t s)"
  using assms by (auto simp: audioTask_def guiTask_def)

lemma supervisor_never_gone: "lock_discipline s \<Longrightarrow> pcs s SYS \<noteq> L_gone"
  by (auto simp: lock_discipline_def)

text \<open>
  C7. When the Audio task's \<open>audio_init\<close> or the Presentation task's \<open>display_init\<close>
  does not return OK, the task's step is \<open>vTaskDelete\<close> and nothing else: the task is
  gone, the fault code is what it was, and the only call added to the trace is the delete.
  In every continuation the task stays gone, the Supervisor can take its next step,
  and so can the Storage task unless it has ended itself.
\<close>

theorem optional_bringup_failure_is_silent:
  assumes "t = AUDIO \<and> audio_init_result i \<noteq> AUDIO_OK
         \<or> t = GUI \<and> display_init_result i \<noteq> DISPLAY_OK"
      and "pcs (exec sched main_boot) t = L_init"
  shows "task_step t i (exec sched main_boot) = Some (vTaskDelete t (exec sched main_boot))
       \<and> pcs (vTaskDelete t (exec sched main_boot)) t = L_gone
       \<and> system_get_error (sys (vTaskDelete t (exec sched main_boot)))
           = system_get_error (sys (exec sched main_boot))
       \<and> trace (vTaskDelete t (exec sched main_boot)) = trace (exec sched main_boot) @ [(t, Delete)]
       \<and> pcs (exec later (vTaskDelete t (exec sched main_boot))) t = L_gone
       \<and> task_step SYS j (exec later (vTaskDelete t (exec sched main_boot))) \<noteq> None
       \<and> (pcs (exec later (vTaskDelete t (exec sched main_boot))) FS \<noteq> L_gone \<longrightarrow>
            task_step FS j (exec later (vTaskDelete t (exec sched main_boot))) \<noteq> None)"
proof -
  let ?s = "exec sched main_boot"
  let ?s' = "vTaskDelete t ?s"
  have step: "task_step t i ?s = Some ?s'"
    using assms by (rule optional_task_init_failed)
  then have "exec (sched @ [(t, i)] @ later) main_boot = exec later ?s'"
    by (simp add: exec_append)
  then have inv: "lock_discipline (exec later ?s')"
    using lock_discipline_reachable [of "sched @ [(t, i)] @ later"] by simp
  have gone: "pcs ?s' t = L_gone" by (simp add: kernel_fields)
  from inv have "task_step SYS j (exec later ?s') \<noteq> None"
    by (intro live_task_can_step supervisor_never_gone)
  moreover have "pcs (exec later ?s') FS \<noteq> L_gone \<longrightarrow>
      task_step FS j (exec later ?s') \<noteq> None"
    using live_task_can_step [OF inv, of FS j] by blast
  moreover from gone have "pcs (exec later ?s') t = L_gone" by (rule gone_stays_gone)
  ultimately show ?thesis using step gone
    by (simp add: kernel_fields system_get_error_def)
qed

theorem optional_bringup_failure_is_silent_witness:
  "task_step AUDIO no_peripherals (exec [(SYS, no_peripherals), (FS, no_peripherals)] main_boot)
     = Some (vTaskDelete AUDIO (exec [(SYS, no_peripherals), (FS, no_peripherals)] main_boot))
   \<and> system_get_error (sys (vTaskDelete AUDIO
        (exec [(SYS, no_peripherals), (FS, no_peripherals)] main_boot))) = ERROR_NONE
   \<and> task_step FS no_peripherals (exec [(GUI, no_peripherals)] (vTaskDelete AUDIO
        (exec [(SYS, no_peripherals), (FS, no_peripherals)] main_boot))) \<noteq> None"
proof -
  let ?sched = "[(SYS, no_peripherals), (FS, no_peripherals)]"
  have a: "AUDIO = AUDIO \<and> audio_init_result no_peripherals \<noteq> AUDIO_OK
         \<or> AUDIO = GUI \<and> display_init_result no_peripherals \<noteq> DISPLAY_OK"
    by (simp add: no_peripherals_def healthy_def)
  have b: "pcs (exec ?sched main_boot) AUDIO = L_init"
    by (simp add: step_defs main_boot_def no_peripherals_def healthy_def)
  have c: "system_get_error (sys (exec ?sched main_boot)) = ERROR_NONE"
    by (simp add: step_defs main_boot_def no_peripherals_def healthy_def system_get_error_def
        initial_state_def system_init_currentError)
  have d: "pcs (exec [(GUI, no_peripherals)] (vTaskDelete AUDIO (exec ?sched main_boot))) FS
             \<noteq> L_gone"
    by (simp add: step_defs main_boot_def no_peripherals_def healthy_def)
  from optional_bringup_failure_is_silent [OF a b, of "[(GUI, no_peripherals)]" no_peripherals]
    c d
  show ?thesis by simp
qed

subsection \<open>The button callback\<close>

text \<open>
  C9. For every button id and event, \<open>buttonCallback\<close> makes exactly one handler call,
  the one that belongs to the event's kind; a sequence of events yields the sequence of
  their handler calls, one for one and in the same order; in particular a press followed
  by a release of one button reaches the press handler first and the release handler
  second.
\<close>

theorem button_dispatch_one_to_one:
  "buttonCallback button_id event = [handler_for (button_id, event)]
   \<and> button_events evs = map handler_for evs
   \<and> button_events [(b, BUTTON_PRESSED), (b, BUTTON_RELEASED)]
       = [Gui_handle_button_press b, Gui_handle_button_release b]"
proof (intro conjI)
  show one: "buttonCallback button_id event = [handler_for (button_id, event)]"
    for button_id event
    by (cases event) (simp_all add: buttonCallback_def)
  show "button_events evs = map handler_for evs"
    by (induction evs) (auto simp: one)
  show "button_events [(b, BUTTON_PRESSED), (b, BUTTON_RELEASED)]
       = [Gui_handle_button_press b, Gui_handle_button_release b]"
    by (simp add: buttonCallback_def)
qed

end
